theory Spec2Isabelle
  imports Main "HOL-Library.Word"
begin

section \<open>JavaScript strings\<close>

text \<open>
  A JavaScript string is a sequence of UTF-16 code units; \<open>length\<close>, \<open>trim\<close>, \<open>parseInt\<close>
  and regular expressions without the \<open>u\<close> flag all work on code units.  Source literals
  are ASCII and are written through \<open>js\<close>.
\<close>

type_synonym jschar = "16 word"
type_synonym jsstring = "jschar list"

definition ch :: "char \<Rightarrow> jschar" where
  "ch c = of_char c"

definition js :: "string \<Rightarrow> jsstring" where
  "js s = map ch s"

text \<open>Inclusive code-unit ranges, the items of a character class.\<close>

type_synonym ranges = "(jschar \<times> jschar) list"

definition in_ranges :: "ranges \<Rightarrow> jschar \<Rightarrow> bool" where
  "in_ranges rs c = list_ex (\<lambda>(lo, hi). lo \<le> c \<and> c \<le> hi) rs"

definition single :: "char \<Rightarrow> jschar \<times> jschar" where
  "single c = (ch c, ch c)"

definition from_to :: "char \<Rightarrow> char \<Rightarrow> jschar \<times> jschar" where
  "from_to a b = (ch a, ch b)"

text \<open>
  WhiteSpace and LineTerminator of ECMAScript: TAB, LF, VT, FF, CR, SP, NBSP, the
  Unicode space separators, LS, PS and the byte order mark.  It is the set stripped by
  \<open>String.prototype.trim\<close>, skipped by \<open>parseInt\<close> and matched by \<open>\s\<close>.
\<close>

definition white_space :: ranges where
  "white_space = [(0x09, 0x0D), (0x20, 0x20), (0xA0, 0xA0), (0x1680, 0x1680),
     (0x2000, 0x200A), (0x2028, 0x2029), (0x202F, 0x202F), (0x205F, 0x205F),
     (0x3000, 0x3000), (0xFEFF, 0xFEFF)]"

definition is_white_space :: "jschar \<Rightarrow> bool" where
  "is_white_space c = in_ranges white_space c"

text \<open>\<open>\d\<close> is \<open>[0-9]\<close> and \<open>\w\<close> is \<open>[A-Za-z0-9_]\<close>; \<open>.\<close> excludes the line terminators.\<close>

definition digit :: ranges where
  "digit = [from_to CHR ''0'' CHR ''9'']"

definition word_char :: ranges where
  "word_char = [from_to CHR ''A'' CHR ''Z'', from_to CHR ''a'' CHR ''z'',
     from_to CHR ''0'' CHR ''9'', single CHR ''_'']"

definition line_terminator :: ranges where
  "line_terminator = [(0x0A, 0x0A), (0x0D, 0x0D), (0x2028, 0x2029)]"

definition trim :: "jsstring \<Rightarrow> jsstring" where
  "trim s = rev (dropWhile is_white_space (rev (dropWhile is_white_space s)))"

section \<open>parseInt with radix 10\<close>

text \<open>
  \<open>parseInt(string, 10)\<close>: leading white space is skipped, one sign is read, then the
  longest run of decimal digits; no digit at all gives NaN (\<open>None\<close>), and whatever follows
  the digits is ignored.  The result is compared with 13 and 120 only, both exact as
  doubles, and rounding to a double is monotone, so the mathematical integer decides the
  comparisons as the double does.
\<close>

definition digit_value :: "jschar \<Rightarrow> int" where
  "digit_value c = uint c - 48"

definition digits_value :: "jsstring \<Rightarrow> int" where
  "digits_value ds = foldl (\<lambda>acc c. 10 * acc + digit_value c) 0 ds"

definition parseInt :: "jsstring \<Rightarrow> int option" where
  "parseInt s =
     (let S = dropWhile is_white_space s;
          neg = (S \<noteq> [] \<and> hd S = ch CHR ''-'');
          S' = (if S \<noteq> [] \<and> (hd S = ch CHR ''+'' \<or> hd S = ch CHR ''-'') then tl S else S);
          Z = takeWhile (in_ranges digit) S'
      in if Z = [] then None
         else Some ((if neg then - 1 else 1) * digits_value Z))"

section \<open>Regular expressions\<close>

text \<open>
  The patterns of the rule table use character classes, \<open>.\<close>, the assertions \<open>^\<close>, \<open>$\<close>
  and \<open>\b\<close>, sequencing, quantifiers and positive lookahead.  None carries a flag, so
  \<open>^\<close> and \<open>$\<close> are the ends of the input, matching is case sensitive, and
  \<open>RegExp.prototype.test\<close> starts from index 0 and neither reads nor writes \<open>lastIndex\<close>.
  \<open>test\<close> only asks whether some match exists, so a matcher is modelled by the list of
  end positions it can reach from a start position.
\<close>

datatype regex =
    Empty
  | Chars ranges
  | Dot
  | Bol
  | Eol
  | Word_boundary
  | Seq regex regex
  | Repeat nat "nat option" regex
  | Lookahead regex

fun dec :: "nat option \<Rightarrow> nat option" where
  "dec None = None"
| "dec (Some h) = Some (h - 1)"

text \<open>
  RepeatMatcher: with no iteration left to take (\<open>max = 0\<close>) it stops; while iterations
  are owed (\<open>min > 0\<close>) it must iterate; afterwards it may stop or iterate, and an
  iteration that consumes nothing is rejected.  Matchers only move forward inside the
  input of length \<open>n\<close>, which is what the filter states and what ends the recursion.
\<close>

function repeat :: "(nat \<Rightarrow> nat list) \<Rightarrow> nat \<Rightarrow> nat \<Rightarrow> nat option \<Rightarrow> nat \<Rightarrow> nat list" where
  "repeat f n lo hi i =
     (if hi = Some 0 then [i]
      else if lo \<noteq> 0 then concat (map (\<lambda>j. repeat f n (lo - 1) (dec hi) j) (f i))
      else i # concat (map (\<lambda>j. repeat f n 0 (dec hi) j) (filter (\<lambda>j. i < j \<and> j \<le> n) (f i))))"
  by pat_completeness auto
termination
  by (relation "measures [\<lambda>(f, n, lo, hi, i). lo, \<lambda>(f, n, lo, hi, i). n - i]") auto

declare repeat.simps [simp del]

definition is_word_at :: "jsstring \<Rightarrow> nat \<Rightarrow> bool" where
  "is_word_at s i = (i < length s \<and> in_ranges word_char (s ! i))"

primrec matches :: "regex \<Rightarrow> jsstring \<Rightarrow> nat \<Rightarrow> nat list" where
  "matches Empty s i = [i]"
| "matches (Chars rs) s i = (if i < length s \<and> in_ranges rs (s ! i) then [Suc i] else [])"
| "matches Dot s i =
     (if i < length s \<and> \<not> in_ranges line_terminator (s ! i) then [Suc i] else [])"
| "matches Bol s i = (if i = 0 then [i] else [])"
| "matches Eol s i = (if i = length s then [i] else [])"
| "matches Word_boundary s i =
     (if (0 < i \<and> is_word_at s (i - 1)) \<noteq> is_word_at s i then [i] else [])"
| "matches (Seq a b) s i = concat (map (matches b s) (matches a s i))"
| "matches (Repeat lo hi a) s i = repeat (matches a s) (length s) lo hi i"
| "matches (Lookahead a) s i = (if matches a s i = [] then [] else [i])"

definition regex_test :: "regex \<Rightarrow> jsstring \<Rightarrow> bool" where
  "regex_test r s = list_ex (\<lambda>i. matches r s i \<noteq> []) [0..<Suc (length s)]"

fun seqs :: "regex list \<Rightarrow> regex" where
  "seqs [] = Empty"
| "seqs [r] = r"
| "seqs (r # rs) = Seq r (seqs rs)"

definition lit :: "string \<Rightarrow> regex" where
  "lit s = seqs (map (\<lambda>c. Chars [single c]) s)"

definition zero_or_more :: "regex \<Rightarrow> regex" where
  "zero_or_more r = Repeat 0 None r"

definition one_or_more :: "regex \<Rightarrow> regex" where
  "one_or_more r = Repeat 1 None r"

definition optional :: "regex \<Rightarrow> regex" where
  "optional r = Repeat 0 (Some 1) r"

section \<open>The rule table\<close>

text \<open>
  \<open>validationRules\<close> and \<open>labels\<close> are plain object literals, so \<open>object[key]\<close> finds
  an own property first and otherwise a member inherited from \<open>Object.prototype\<close>: a
  built-in function, or the prototype object itself for \<open>__proto__\<close>.  Such a member is
  truthy and has none of the properties of a rule.  \<open>inherited\<close> tells the keys that an
  object literal without that own property inherits.
\<close>

definition object_prototype_keys :: "jsstring list" where
  "object_prototype_keys = map js
     [''constructor'', ''__defineGetter__'', ''__defineSetter__'', ''hasOwnProperty'',
      ''__lookupGetter__'', ''__lookupSetter__'', ''isPrototypeOf'', ''propertyIsEnumerable'',
      ''toString'', ''valueOf'', ''__proto__'', ''toLocaleString'']"

definition inherited :: "jsstring \<Rightarrow> bool" where
  "inherited key = (key \<in> set object_prototype_keys)"

text \<open>
  A value that a lookup in \<open>labels\<close> can give: a string, or the member of
  \<open>Object.prototype\<close> of the given name.  In a template literal a string stands for
  itself; the text of a built-in member is left to the implementation by ECMAScript and is
  taken from the environment.
\<close>

datatype jsvalue = Str jsstring | Member jsstring

fun template_text :: "(jsstring \<Rightarrow> jsstring) \<Rightarrow> jsvalue \<Rightarrow> jsstring" where
  "template_text member_text (Str s) = s"
| "template_text member_text (Member name) = member_text name"

text \<open>
  A Field Rule is an object literal of \<open>validationRules\<close>; a property it does not define
  reads as \<open>undefined\<close>, here \<open>None\<close>.  Every declared rule defines \<open>required\<close> and
  \<open>message\<close>.  \<open>validationRules\<close> below gives the own property of that name, the
  declared rule.
\<close>

record rule =
  required :: bool
  minLength :: "nat option"
  maxLength :: "nat option"
  pattern :: "regex option"
  min_value :: "int option"
  max_value :: "int option"
  message :: jsstring

definition letters :: ranges where
  "letters = [from_to CHR ''a'' CHR ''z'', from_to CHR ''A'' CHR ''Z'']"

text \<open>\<^verbatim>\<open>/^[a-zA-Z\s'-]+$/\<close>\<close>

definition fullName_pattern :: regex where
  "fullName_pattern =
     seqs [Bol,
       one_or_more (Chars (letters @ white_space @ [single (CHR 0x27), single CHR ''-''])),
       Eol]"

text \<open>\<^verbatim>\<open>/^[a-zA-Z0-9._%+-]+@[a-zA-Z0-9.-]+\.[a-zA-Z]{2,}$/\<close>\<close>

definition email_pattern :: regex where
  "email_pattern =
     seqs [Bol,
       one_or_more (Chars (letters @ digit @
         [single CHR ''.'', single CHR ''_'', single CHR ''%'', single CHR ''+'', single CHR ''-''])),
       lit ''@'',
       one_or_more (Chars (letters @ digit @ [single CHR ''.'', single CHR ''-''])),
       lit ''.'',
       Repeat 2 None (Chars letters),
       Eol]"

text \<open>\<^verbatim>\<open>/^[\+]?[(]?[\d\s\-\(\)]{10,}$/\<close>\<close>

definition phone_class :: ranges where
  "phone_class = digit @ white_space @ [single CHR ''-'', single CHR ''('', single CHR '')'']"

definition phone_pattern :: regex where
  "phone_pattern =
     seqs [Bol, optional (Chars [single CHR ''+'']), optional (Chars [single CHR ''('']),
       Repeat 10 None (Chars phone_class), Eol]"

text \<open>\<^verbatim>\<open>/^(?=.*[a-z])(?=.*[A-Z])(?=.*\d)(?=.*[@$!%*?&])[A-Za-z\d@$!%*?&]/\<close>\<close>

definition specials :: ranges where
  "specials = [single CHR ''@'', single CHR ''$'', single CHR ''!'', single CHR ''%'',
     single CHR ''*'', single CHR ''?'', single CHR ''&'']"

definition password_pattern :: regex where
  "password_pattern =
     seqs [Bol,
       Lookahead (Seq (zero_or_more Dot) (Chars [from_to CHR ''a'' CHR ''z''])),
       Lookahead (Seq (zero_or_more Dot) (Chars [from_to CHR ''A'' CHR ''Z''])),
       Lookahead (Seq (zero_or_more Dot) (Chars digit)),
       Lookahead (Seq (zero_or_more Dot) (Chars specials)),
       Chars ([from_to CHR ''A'' CHR ''Z'', from_to CHR ''a'' CHR ''z''] @ digit @ specials)]"

text \<open>\<^verbatim>\<open>/^https?:\/\/(www\.)?[-a-zA-Z0-9@:%._\+~#=]{1,256}\.[a-zA-Z0-9()]{1,6}\b([-a-zA-Z0-9()@:%_\+.~#?&//=]*)$/\<close>\<close>

definition website_pattern :: regex where
  "website_pattern =
     seqs [Bol, lit ''http'', optional (lit ''s''), lit ''://'', optional (lit ''www.''),
       Repeat 1 (Some 256) (Chars ([single CHR ''-''] @ letters @ digit @
         [single CHR ''@'', single CHR '':'', single CHR ''%'', single CHR ''.'', single CHR ''_'',
          single CHR ''+'', single CHR ''~'', single CHR ''#'', single CHR ''=''])),
       lit ''.'',
       Repeat 1 (Some 6) (Chars (letters @ digit @ [single CHR ''('', single CHR '')''])),
       Word_boundary,
       zero_or_more (Chars ([single CHR ''-''] @ letters @ digit @
         [single CHR ''('', single CHR '')'', single CHR ''@'', single CHR '':'', single CHR ''%'',
          single CHR ''_'', single CHR ''+'', single CHR ''.'', single CHR ''~'', single CHR ''#'',
          single CHR ''?'', single CHR ''&'', single CHR ''/'', single CHR ''/'', single CHR ''=''])),
       Eol]"

definition fullName_rule :: rule where
  "fullName_rule =
     \<lparr>required = True, minLength = Some 2, maxLength = Some 50,
      pattern = Some fullName_pattern, min_value = None, max_value = None,
      message = js ''Name must be 2-50 characters and contain only letters, spaces, hyphens, and apostrophes''\<rparr>"

definition email_rule :: rule where
  "email_rule =
     \<lparr>required = True, minLength = None, maxLength = None,
      pattern = Some email_pattern, min_value = None, max_value = None,
      message = js ''Please enter a valid email address (example: user@domain.com)''\<rparr>"

definition phone_rule :: rule where
  "phone_rule =
     \<lparr>required = False, minLength = None, maxLength = None,
      pattern = Some phone_pattern, min_value = None, max_value = None,
      message = js ''Please enter a valid phone number (at least 10 digits)''\<rparr>"

definition password_rule :: rule where
  "password_rule =
     \<lparr>required = True, minLength = Some 8, maxLength = None,
      pattern = Some password_pattern, min_value = None, max_value = None,
      message = js ''Password must be at least 8 characters with uppercase, lowercase, number, and special character (@$!%*?&)''\<rparr>"

definition confirmPassword_rule :: rule where
  "confirmPassword_rule =
     \<lparr>required = True, minLength = None, maxLength = None,
      pattern = None, min_value = None, max_value = None,
      message = js ''Passwords do not match''\<rparr>"

definition age_rule :: rule where
  "age_rule =
     \<lparr>required = False, minLength = None, maxLength = None,
      pattern = None, min_value = Some 13, max_value = Some 120,
      message = js ''Age must be between 13 and 120 years''\<rparr>"

definition website_rule :: rule where
  "website_rule =
     \<lparr>required = False, minLength = None, maxLength = None,
      pattern = Some website_pattern, min_value = None, max_value = None,
      message = js ''Please enter a valid URL (include http:// or https://)''\<rparr>"

definition message_rule :: rule where
  "message_rule =
     \<lparr>required = True, minLength = Some 10, maxLength = Some 500,
      pattern = None, min_value = None, max_value = None,
      message = js ''Message must be between 10 and 500 characters''\<rparr>"

definition validationRules_table :: "(jsstring \<times> rule) list" where
  "validationRules_table =
    [(js ''fullName'', fullName_rule),
     (js ''email'', email_rule),
     (js ''phone'', phone_rule),
     (js ''password'', password_rule),
     (js ''confirmPassword'', confirmPassword_rule),
     (js ''age'', age_rule),
     (js ''website'', website_rule),
     (js ''message'', message_rule)]"

definition validationRules :: "jsstring \<Rightarrow> rule option" where
  "validationRules fieldName = map_of validationRules_table fieldName"

definition labels :: "(jsstring \<times> jsstring) list" where
  "labels =
    [(js ''fullName'', js ''Full Name''),
     (js ''email'', js ''Email Address''),
     (js ''phone'', js ''Phone Number''),
     (js ''password'', js ''Password''),
     (js ''confirmPassword'', js ''Confirm Password''),
     (js ''age'', js ''Age''),
     (js ''website'', js ''Website''),
     (js ''message'', js ''Message'')]"

text \<open>
  \<open>labels[fieldName] || fieldName\<close>: an own label that is not the empty string, else an
  inherited member, which is truthy, else the identifier.
\<close>

definition getFieldLabel :: "jsstring \<Rightarrow> jsvalue" where
  "getFieldLabel fieldName =
     (case map_of labels fieldName of
        Some l \<Rightarrow> if l \<noteq> [] then Str l else Str fieldName
      | None \<Rightarrow> if inherited fieldName then Member fieldName else Str fieldName)"

section \<open>The page state the form reads and writes\<close>

text \<open>
  \<open>fields_obj\<close> is the object \<open>fields\<close>: it maps each field identifier to its input
  element, or to \<open>null\<close> (\<open>None\<close>) when the page has no such element.  An input element
  holds its text and the two decoration classes; \<open>errorElements\<close> and \<open>successElements\<close>
  are the elements with the ids \<open>fieldName + 'Error'\<close> and \<open>fieldName + 'Success'\<close>, when
  the page has them: a text with a \<open>display\<close> style, and a \<open>display\<close> style.
  \<open>formSuccess\<close> is the \<open>display\<close> style of the element of that id, when the page has
  it; \<open>focused\<close> is the field whose input has the focus, \<open>None\<close> when the focus is
  elsewhere; \<open>banners\<close> are the texts of the notification elements appended to the body;
  \<open>member_text\<close> is the text the implementation gives a built-in member of
  \<open>Object.prototype\<close>.
\<close>

record field_element =
  field_value :: jsstring
  class_error :: bool
  class_success :: bool

record error_element =
  textContent :: jsstring
  error_display :: jsstring

record form_page =
  fields_obj :: "jsstring \<rightharpoonup> field_element"
  errorElements :: "jsstring \<rightharpoonup> error_element"
  successElements :: "jsstring \<rightharpoonup> jsstring"
  formSuccess :: "jsstring option"
  focused :: "jsstring option"
  banners :: "jsstring list"
  member_text :: "jsstring \<Rightarrow> jsstring"

definition field_names :: "jsstring list" where
  "field_names = [js ''fullName'', js ''email'', js ''phone'', js ''password'',
     js ''confirmPassword'', js ''age'', js ''website'', js ''message'']"

text \<open>\<open>fields.password ? fields.password.value : ''\<close>\<close>

definition passwordValue :: "form_page \<Rightarrow> jsstring" where
  "passwordValue pg =
     (case fields_obj pg (js ''password'') of None \<Rightarrow> [] | Some el \<Rightarrow> field_value el)"

section \<open>validateField\<close>

record validation_result =
  isValid :: bool
  result_message :: "jsstring option"

text \<open>The return statements of \<open>validateField\<close>, in source order.\<close>

datatype exit =
    Pass_no_rule
  | Fail_required
  | Pass_empty
  | Fail_min_length
  | Fail_max_length
  | Fail_pattern
  | Fail_range
  | Fail_confirm
  | Pass_all

text \<open>\<open>!value || value.trim() === ''\<close>; the empty string is the only falsy string.\<close>

definition is_empty :: "jsstring \<Rightarrow> bool" where
  "is_empty v = (v = [] \<or> trim v = [])"

text \<open>
  The four generic conditions, on the trimmed value.  \<open>rules.minLength && ...\<close> and
  \<open>rules.maxLength && ...\<close> are skipped for an undefined or zero bound; the range
  block is entered when either bound is defined.
\<close>

definition too_short :: "rule \<Rightarrow> jsstring \<Rightarrow> bool" where
  "too_short rules v =
     (case minLength rules of None \<Rightarrow> False | Some m \<Rightarrow> m \<noteq> 0 \<and> length v < m)"

definition too_long :: "rule \<Rightarrow> jsstring \<Rightarrow> bool" where
  "too_long rules v =
     (case maxLength rules of None \<Rightarrow> False | Some m \<Rightarrow> m \<noteq> 0 \<and> length v > m)"

definition pattern_mismatch :: "rule \<Rightarrow> jsstring \<Rightarrow> bool" where
  "pattern_mismatch rules v =
     (case pattern rules of None \<Rightarrow> False | Some p \<Rightarrow> \<not> regex_test p v)"

definition out_of_range :: "rule \<Rightarrow> jsstring \<Rightarrow> bool" where
  "out_of_range rules v =
     ((min_value rules \<noteq> None \<or> max_value rules \<noteq> None) \<and>
      (case parseInt v of
         None \<Rightarrow> True
       | Some numValue \<Rightarrow>
           (case min_value rules of None \<Rightarrow> False | Some lo \<Rightarrow> numValue < lo) \<or>
           (case max_value rules of None \<Rightarrow> False | Some hi \<Rightarrow> numValue > hi)))"

definition valid :: validation_result where
  "valid = \<lparr>isValid = True, result_message = None\<rparr>"

definition invalid :: "jsstring \<Rightarrow> validation_result" where
  "invalid msg = \<lparr>isValid = False, result_message = Some msg\<rparr>"

text \<open>
  \<open>validateField_exit\<close> follows the function body statement by statement and gives, with
  the returned object, the return statement that produced it.  For a name that only
  \<open>Object.prototype\<close> defines, \<open>rules\<close> is that member: it is truthy, \<open>required\<close>,
  \<open>minLength\<close>, \<open>maxLength\<close>, \<open>pattern\<close>, \<open>min\<close> and \<open>max\<close> read as \<open>undefined\<close> on it and
  the name is not \<open>confirmPassword\<close>, so the function returns at the emptiness test or at
  its end.
\<close>

definition validateField_exit :: "form_page \<Rightarrow> jsstring \<Rightarrow> jsstring \<Rightarrow> exit \<times> validation_result" where
  "validateField_exit pg fieldName v =
     (case validationRules fieldName of
        None \<Rightarrow>
          if \<not> inherited fieldName then (Pass_no_rule, valid)
          else if is_empty v then (Pass_empty, valid)
          else (Pass_all, valid)
      | Some rules \<Rightarrow>
          if required rules \<and> is_empty v
          then (Fail_required,
            invalid (template_text (member_text pg) (getFieldLabel fieldName) @
              js '' is required''))
          else if is_empty v then (Pass_empty, valid)
          else let value = trim v in
            if too_short rules value then (Fail_min_length, invalid (message rules))
            else if too_long rules value then (Fail_max_length, invalid (message rules))
            else if pattern_mismatch rules value then (Fail_pattern, invalid (message rules))
            else if out_of_range rules value then (Fail_range, invalid (message rules))
            else if fieldName = js ''confirmPassword'' \<and> value \<noteq> passwordValue pg
            then (Fail_confirm, invalid (message rules))
            else (Pass_all, valid))"

definition validateField :: "form_page \<Rightarrow> jsstring \<Rightarrow> jsstring \<Rightarrow> validation_result" where
  "validateField pg fieldName v = snd (validateField_exit pg fieldName v)"

section \<open>updateFieldUI, the listeners and the submit handler\<close>

text \<open>
  \<open>updateFieldUI\<close> decorates the input of a field and shows or hides its two messages.
  Its callers, the listeners and the submit handler, pass it keys of \<open>fields\<close> only.
\<close>

definition updateFieldUI :: "jsstring \<Rightarrow> validation_result \<Rightarrow> form_page \<Rightarrow> form_page" where
  "updateFieldUI fieldName validationResult pg =
     (case fields_obj pg fieldName of
        None \<Rightarrow> pg
      | Some field \<Rightarrow>
          let filled = (trim (field_value field) \<noteq> []) in
          if isValid validationResult then
            pg\<lparr>fields_obj := (fields_obj pg)(fieldName \<mapsto>
                  field\<lparr>class_error := False,
                        class_success := (class_success field \<or> filled)\<rparr>),
               errorElements := (case errorElements pg fieldName of
                  None \<Rightarrow> errorElements pg
                | Some e \<Rightarrow> (errorElements pg)(fieldName \<mapsto> e\<lparr>error_display := js ''none''\<rparr>)),
               successElements := (case successElements pg fieldName of
                  None \<Rightarrow> successElements pg
                | Some d \<Rightarrow> if filled then (successElements pg)(fieldName \<mapsto> js ''block'')
                            else successElements pg)\<rparr>
          else
            pg\<lparr>fields_obj := (fields_obj pg)(fieldName \<mapsto>
                  field\<lparr>class_success := False, class_error := True\<rparr>),
               successElements := (case successElements pg fieldName of
                  None \<Rightarrow> successElements pg
                | Some d \<Rightarrow> (successElements pg)(fieldName \<mapsto> js ''none'')),
               errorElements := (case errorElements pg fieldName of
                  None \<Rightarrow> errorElements pg
                | Some e \<Rightarrow> (errorElements pg)(fieldName \<mapsto>
                    \<lparr>textContent = (case result_message validationResult of None \<Rightarrow> [] | Some m \<Rightarrow> m),
                     error_display = js ''block''\<rparr>))\<rparr>)"

text \<open>
  The listeners every existing input of \<open>fields\<close> gets: \<open>blur\<close> validates the field and
  shows the result; \<open>focus\<close> takes the error decoration off the field and hides its error
  message.
\<close>

definition blur_listener :: "jsstring \<Rightarrow> form_page \<Rightarrow> form_page" where
  "blur_listener fieldName pg =
     (case fields_obj pg fieldName of
        None \<Rightarrow> pg
      | Some field \<Rightarrow>
          if fieldName \<notin> set field_names then pg
          else updateFieldUI fieldName (validateField pg fieldName (field_value field)) pg)"

definition focus_listener :: "jsstring \<Rightarrow> form_page \<Rightarrow> form_page" where
  "focus_listener fieldName pg =
     (case fields_obj pg fieldName of
        None \<Rightarrow> pg
      | Some field \<Rightarrow>
          if fieldName \<notin> set field_names \<or> \<not> class_error field then pg
          else
            pg\<lparr>fields_obj := (fields_obj pg)(fieldName \<mapsto> field\<lparr>class_error := False\<rparr>),
               errorElements := (case errorElements pg fieldName of
                  None \<Rightarrow> errorElements pg
                | Some e \<Rightarrow> (errorElements pg)(fieldName \<mapsto> e\<lparr>error_display := js ''none''\<rparr>))\<rparr>)"

text \<open>
  \<open>element.focus()\<close> on an input of the form, which is taken to be focusable: nothing
  happens when it has the focus already; otherwise the input that had the focus gets
  \<open>blur\<close>, the focus moves, and the input gets \<open>focus\<close>.
\<close>

definition focus_input :: "jsstring \<Rightarrow> form_page \<Rightarrow> form_page" where
  "focus_input fieldName pg =
     (if focused pg = Some fieldName then pg
      else
        let pg1 = (case focused pg of None \<Rightarrow> pg | Some old \<Rightarrow> blur_listener old pg)
        in focus_listener fieldName (pg1\<lparr>focused := Some fieldName\<rparr>))"

text \<open>\<open>showNotification\<close> appends an element with the message to the body.\<close>

definition showNotification :: "jsstring \<Rightarrow> form_page \<Rightarrow> form_page" where
  "showNotification msg pg = pg\<lparr>banners := banners pg @ [msg]\<rparr>"

text \<open>
  \<open>handleSuccessfulSubmission\<close> shows the success indicator and a notification; it logs
  \<open>formData\<close>, and the reset it offers two seconds later is an event of its own.
  \<open>handleFailedSubmission\<close> hides the success indicator, gives the focus to the first
  field decorated as an error, and shows a notification; it logs \<open>errors\<close>.  The
  notifications begin with U+1F389 and U+274C.
\<close>

definition handleSuccessfulSubmission :: "(jsstring \<rightharpoonup> jsstring) \<Rightarrow> form_page \<Rightarrow> form_page" where
  "handleSuccessfulSubmission data pg =
     showNotification ([0xD83C, 0xDF89] @ js '' Form submitted successfully!'')
       (pg\<lparr>formSuccess := map_option (\<lambda>d. js ''block'') (formSuccess pg)\<rparr>)"

definition handleFailedSubmission :: "(jsstring \<times> jsstring option) list \<Rightarrow> form_page \<Rightarrow> form_page" where
  "handleFailedSubmission errs pg =
     (let pg1 = pg\<lparr>formSuccess := map_option (\<lambda>d. js ''none'') (formSuccess pg)\<rparr>;
          firstErrorField = find (\<lambda>fieldName.
              case fields_obj pg1 fieldName of None \<Rightarrow> False | Some field \<Rightarrow> class_error field)
            field_names;
          pg2 = (case firstErrorField of None \<Rightarrow> pg1 | Some fieldName \<Rightarrow> focus_input fieldName pg1)
      in showNotification ([0x274C] @ js '' Please fix the errors and try again'') pg2)"

text \<open>
  The state of one run of the submit handler: the event's \<open>defaultPrevented\<close> flag, the
  locals \<open>isFormValid\<close>, \<open>formData\<close> and \<open>errors\<close>, and the page.
\<close>

record submission =
  defaultPrevented :: bool
  isFormValid :: bool
  formData :: "jsstring \<rightharpoonup> jsstring"
  errors :: "(jsstring \<times> jsstring option) list"
  page :: form_page

text \<open>The body of \<open>Object.keys(fields).forEach(fieldName => ...)\<close>.\<close>

definition validate_one :: "jsstring \<Rightarrow> submission \<Rightarrow> submission" where
  "validate_one fieldName st =
     (case fields_obj (page st) fieldName of
        None \<Rightarrow> st
      | Some field \<Rightarrow>
          let v = field_value field;
              validationResult = validateField (page st) fieldName v;
              st' = st\<lparr>page := updateFieldUI fieldName validationResult (page st)\<rparr>
          in if \<not> isValid validationResult
             then st'\<lparr>isFormValid := False,
                     errors := errors st' @ [(fieldName, result_message validationResult)]\<rparr>
             else st'\<lparr>formData := (formData st')(fieldName \<mapsto> v)\<rparr>)"

text \<open>
  The handler: \<open>event.preventDefault()\<close>, the loop over \<open>Object.keys(fields)\<close>, then one
  of the two outcomes.
\<close>

definition validate_all :: "form_page \<Rightarrow> submission" where
  "validate_all pg =
     fold validate_one field_names
       \<lparr>defaultPrevented = True, isFormValid = True, formData = Map.empty, errors = [],
        page = pg\<rparr>"

definition submit :: "form_page \<Rightarrow> submission" where
  "submit pg =
     (let st = validate_all pg
      in if isFormValid st
         then st\<lparr>page := handleSuccessfulSubmission (formData st) (page st)\<rparr>
         else st\<lparr>page := handleFailedSubmission (errors st) (page st)\<rparr>)"

section \<open>Disclosure groups\<close>













section \<open>Notions used to state the properties\<close>

text \<open>
  The generic checks in the specification's words, on the trimmed value \<open>t\<close>: the value
  is shorter than the minimum length of the rule; it is longer than its maximum length;
  it does not match its pattern; the rule has a bound and the value does not parse to an
  integer, or parses to one below the minimum or above the maximum.  A rule without the
  property does not make the check.
\<close>

definition spec_min_length_fails :: "rule \<Rightarrow> jsstring \<Rightarrow> bool" where
  "spec_min_length_fails rules t =
     (case minLength rules of None \<Rightarrow> False | Some m \<Rightarrow> length t < m)"

definition spec_max_length_fails :: "rule \<Rightarrow> jsstring \<Rightarrow> bool" where
  "spec_max_length_fails rules t =
     (case maxLength rules of None \<Rightarrow> False | Some m \<Rightarrow> m < length t)"

definition spec_pattern_fails :: "rule \<Rightarrow> jsstring \<Rightarrow> bool" where
  "spec_pattern_fails rules t =
     (case pattern rules of None \<Rightarrow> False | Some p \<Rightarrow> \<not> regex_test p t)"

definition within :: "int option \<Rightarrow> int option \<Rightarrow> int \<Rightarrow> bool" where
  "within lo hi n =
     ((case lo of None \<Rightarrow> True | Some l \<Rightarrow> l \<le> n) \<and>
      (case hi of None \<Rightarrow> True | Some h \<Rightarrow> n \<le> h))"

definition spec_range_fails :: "rule \<Rightarrow> jsstring \<Rightarrow> bool" where
  "spec_range_fails rules t =
     ((min_value rules \<noteq> None \<or> max_value rules \<noteq> None) \<and>
      (case parseInt t of
         None \<Rightarrow> True
       | Some n \<Rightarrow> \<not> within (min_value rules) (max_value rules) n))"



text \<open>
  The shape of a phone number that the pattern of the phone rule turns out to accept
  (\<open>phone_pattern_iff\<close>): an optional plus, then at least ten characters of the class.
\<close>

definition phone_shape :: "jsstring \<Rightarrow> bool" where
  "phone_shape s =
     (let rest = (if s \<noteq> [] \<and> hd s = ch CHR ''+'' then tl s else s)
      in 10 \<le> length rest \<and> list_all (in_ranges phone_class) rest)"

text \<open>
  What a page holds in a field, the verdict \<open>validateField\<close> gives on it, and the entry a
  failing field contributes to the Error Report.  A field without an input element has
  no text and no verdict.
\<close>

definition field_text :: "form_page \<Rightarrow> jsstring \<Rightarrow> jsstring option" where
  "field_text pg fieldName = map_option field_value (fields_obj pg fieldName)"

definition verdict :: "form_page \<Rightarrow> jsstring \<Rightarrow> validation_result option" where
  "verdict pg fieldName = map_option (validateField pg fieldName) (field_text pg fieldName)"

definition passes :: "form_page \<Rightarrow> jsstring \<Rightarrow> bool" where
  "passes pg fieldName = (case verdict pg fieldName of None \<Rightarrow> False | Some r \<Rightarrow> isValid r)"

definition fails :: "form_page \<Rightarrow> jsstring \<Rightarrow> bool" where
  "fails pg fieldName = (case verdict pg fieldName of None \<Rightarrow> False | Some r \<Rightarrow> \<not> isValid r)"

definition report_entry :: "form_page \<Rightarrow> jsstring \<Rightarrow> jsstring \<times> jsstring option" where
  "report_entry pg fieldName =
     (fieldName, case verdict pg fieldName of None \<Rightarrow> None | Some r \<Rightarrow> result_message r)"

definition decorated_error :: "form_page \<Rightarrow> jsstring \<Rightarrow> bool" where
  "decorated_error pg fieldName =
     (case fields_obj pg fieldName of None \<Rightarrow> False | Some el \<Rightarrow> class_error el)"





text \<open>
  Sample pages: input elements holding the given texts, undecorated, none of them
  focused, no notification shown.
\<close>

definition page_with :: "(string \<times> string) list \<Rightarrow> form_page" where
  "page_with vs =
     \<lparr>fields_obj = map_of (map (\<lambda>(k, v). (js k,
          \<lparr>field_value = js v, class_error = False, class_success = False\<rparr>)) vs),
      errorElements = Map.empty, successElements = Map.empty,
      formSuccess = Some (js ''none''), focused = None, banners = [],
      member_text = (\<lambda>name. js ''function '' @ name @ js ''() { [native code] }'')\<rparr>"

definition filled_page :: form_page where
  "filled_page = page_with
     [(''fullName'', ''Ann Lee''), (''email'', ''user@domain.com''), (''phone'', ''''),
      (''password'', ''Abcdef1!''), (''confirmPassword'', ''Abcdef1!''), (''age'', ''13''),
      (''website'', ''''), (''message'', ''Hello there, world'')]"

definition under_age_page :: form_page where
  "under_age_page = page_with
     [(''fullName'', ''Ann Lee''), (''email'', ''user@domain.com''), (''phone'', ''''),
      (''password'', ''Abcdef1!''), (''confirmPassword'', ''Abcdef1!''), (''age'', ''12''),
      (''website'', ''''), (''message'', ''Hello there, world'')]"

definition password_only_page :: form_page where
  "password_only_page = page_with [(''password'', ''Abcdef1!'')]"

definition spaced_password_page :: form_page where
  "spaced_password_page = page_with [(''password'', '' Abcdef1!'')]"







section \<open>Literals, lookups and trimming\<close>

lemma unat_ch [simp]: "unat (ch c) = of_char c"
proof -
  have "(of_char c :: nat) mod 256 = of_char c"
    by simp
  then have "(of_char c :: nat) < 256"
    by (metis mod_less_divisor zero_less_numeral)
  then have "(of_char c :: nat) < 2 ^ 16"
    by (rule less_trans) simp
  then have "(of_char c :: nat) mod 2 ^ 16 = of_char c"
    by (rule mod_less)
  moreover have "ch c = (of_nat (of_char c) :: 16 word)"
    by (simp add: ch_def of_nat_of_char)
  ultimately show ?thesis
    by (simp add: unat_of_nat)
qed

lemma js_eq_iff [simp]: "js a = js b \<longleftrightarrow> a = b"
proof -
  have "inj ch"
  proof (rule injI)
    fix x y
    assume "ch x = ch y"
    then have "unat (ch x) = unat (ch y)"
      by simp
    then have "(of_char x :: nat) = of_char y"
      by (simp only: unat_ch)
    then show "x = y"
      by simp
  qed
  then show ?thesis
    by (simp add: js_def inj_map_eq_map)
qed

lemma js_Nil [simp]: "js [] = []"
  by (simp add: js_def)

lemma js_is_Nil [simp]: "js s = [] \<longleftrightarrow> s = []"
  by (simp add: js_def)

lemma Nil_is_js [simp]: "[] = js s \<longleftrightarrow> s = []"
  by (simp add: js_def)

lemma length_js [simp]: "length (js s) = length s"
  by (simp add: js_def)

lemma js_append: "js a @ js b = js (a @ b)"
  by (simp add: js_def)

lemma validationRules_simps:
  "validationRules (js ''fullName'') = Some fullName_rule"
  "validationRules (js ''email'') = Some email_rule"
  "validationRules (js ''phone'') = Some phone_rule"
  "validationRules (js ''password'') = Some password_rule"
  "validationRules (js ''confirmPassword'') = Some confirmPassword_rule"
  "validationRules (js ''age'') = Some age_rule"
  "validationRules (js ''website'') = Some website_rule"
  "validationRules (js ''message'') = Some message_rule"
  by (simp_all add: validationRules_def validationRules_table_def)

lemmas rule_defs = fullName_rule_def email_rule_def phone_rule_def password_rule_def
  confirmPassword_rule_def age_rule_def website_rule_def message_rule_def

lemmas check_defs = too_short_def too_long_def pattern_mismatch_def out_of_range_def

lemma not_required_fields:
  "map fst (filter (\<lambda>(k, r). \<not> required r) validationRules_table) =
     [js ''phone'', js ''age'', js ''website'']"
  by (simp add: validationRules_table_def rule_defs)

lemma last_dropWhile:
  assumes "dropWhile P xs \<noteq> []"
  shows "last (dropWhile P xs) = last xs"
proof -
  have "last xs = last (takeWhile P xs @ dropWhile P xs)"
    by simp
  also have "\<dots> = last (dropWhile P xs)"
    using assms by (rule last_appendR)
  finally show ?thesis by simp
qed

text \<open>Trimming twice is trimming once: a trimmed string begins and ends outside white space.\<close>

lemma trim_idem: "trim (trim s) = trim s"
proof -
  define u where "u = dropWhile is_white_space s"
  define d where "d = dropWhile is_white_space (rev u)"
  have t: "trim s = rev d"
    by (simp add: trim_def u_def d_def)
  have u: "u = [] \<or> \<not> is_white_space (hd u)"
    unfolding u_def by (metis hd_dropWhile)
  have d: "d = [] \<or> \<not> is_white_space (hd d)"
    unfolding d_def by (metis hd_dropWhile)
  have "d = [] \<or> \<not> is_white_space (last d)"
  proof (cases "d = []")
    case False
    then have "last d = last (rev u)"
      unfolding d_def by (rule last_dropWhile)
    moreover from False have "u \<noteq> []"
      by (auto simp: d_def)
    ultimately show ?thesis
      using u by (simp add: last_rev)
  qed simp
  then have "rev d = [] \<or> \<not> is_white_space (hd (rev d))"
    by (auto simp: hd_rev)
  then have "dropWhile is_white_space (rev d) = rev d"
    by (simp add: dropWhile_eq_self_iff)
  moreover from d have "dropWhile is_white_space d = d"
    by (simp add: dropWhile_eq_self_iff)
  ultimately have "trim (rev d) = rev d"
    by (simp add: trim_def)
  then show ?thesis
    by (simp only: t)
qed

lemma trim_Nil [simp]: "trim [] = []"
  by (simp add: trim_def)

lemma is_empty_iff: "is_empty v \<longleftrightarrow> trim v = []"
  by (auto simp: is_empty_def)

lemma validateField_exit_trim:
  "validateField_exit pg fieldName (trim v) = validateField_exit pg fieldName v"
  by (cases "validationRules fieldName")
    (simp_all add: validateField_exit_def is_empty_iff trim_idem)

lemma validateField_is_empty:
  assumes "validationRules fieldName = Some rules" and "is_empty v"
  shows "validateField_exit pg fieldName v =
    (if required rules
     then (Fail_required,
       invalid (template_text (member_text pg) (getFieldLabel fieldName) @ js '' is required''))
     else (Pass_empty, valid))"
  using assms by (simp add: validateField_exit_def)

text \<open>No label is the empty string, so an own entry of \<open>labels\<close> is the label.\<close>

lemma getFieldLabel_eq:
  "getFieldLabel fieldName =
     (case map_of labels fieldName of
        Some l \<Rightarrow> Str l
      | None \<Rightarrow> if inherited fieldName then Member fieldName else Str fieldName)"
proof -
  have "l \<noteq> []" if "map_of labels fieldName = Some l" for l
  proof -
    from that have "(fieldName, l) \<in> set labels"
      by (rule map_of_SomeD)
    then show ?thesis
      by (auto simp: labels_def)
  qed
  then show ?thesis
    by (auto simp: getFieldLabel_def split: option.splits)
qed

text \<open>Every field with a declared rule has an own entry in \<open>labels\<close>.\<close>

lemma declared_label:
  assumes "validationRules fieldName = Some rules"
  shows "\<exists>l. map_of labels fieldName = Some l \<and> getFieldLabel fieldName = Str l"
proof -
  from assms have "(fieldName, rules) \<in> set validationRules_table"
    unfolding validationRules_def by (rule map_of_SomeD)
  then have "fieldName \<in> set field_names"
    by (auto simp: validationRules_table_def field_names_def)
  then have "map_of labels fieldName \<noteq> None"
    by (auto simp: field_names_def labels_def)
  then show ?thesis
    by (auto simp: getFieldLabel_eq)
qed

lemma declared_not_inherited:
  assumes "validationRules fieldName = Some rules"
  shows "\<not> inherited fieldName"
proof -
  from assms have "(fieldName, rules) \<in> set validationRules_table"
    unfolding validationRules_def by (rule map_of_SomeD)
  then show ?thesis
    by (auto simp: validationRules_table_def inherited_def object_prototype_keys_def)
qed

lemma getFieldLabel_examples:
  "getFieldLabel (js ''fullName'') = Str (js ''Full Name'')"
  "getFieldLabel (js ''zipCode'') = Str (js ''zipCode'')"
  "getFieldLabel (js ''toString'') = Member (js ''toString'')"
  by (simp_all add: getFieldLabel_def labels_def inherited_def object_prototype_keys_def)

lemma validateField_exit_page:
  assumes "passwordValue pg = passwordValue pg'"
  shows "validateField_exit pg fieldName v = validateField_exit pg' fieldName v"
proof (cases "validationRules fieldName")
  case None
  then show ?thesis
    by (simp add: validateField_exit_def)
next
  case (Some rules)
  from declared_label [OF Some] obtain l where "getFieldLabel fieldName = Str l"
    by blast
  with Some assms show ?thesis
    by (simp add: validateField_exit_def cong: if_cong)
qed

text \<open>
  On a declared rule the tests of the function body are the checks in the words of the
  specification; no declared length bound is zero.
\<close>

lemma spec_checks:
  assumes "validationRules fieldName = Some rules"
  shows "too_short rules t = spec_min_length_fails rules t"
    and "too_long rules t = spec_max_length_fails rules t"
    and "pattern_mismatch rules t = spec_pattern_fails rules t"
    and "out_of_range rules t = spec_range_fails rules t"
proof -
  from assms have r: "(fieldName, rules) \<in> set validationRules_table"
    unfolding validationRules_def by (rule map_of_SomeD)
  show "too_short rules t = spec_min_length_fails rules t"
    by (auto simp: too_short_def spec_min_length_fails_def split: option.splits)
  from r show "too_long rules t = spec_max_length_fails rules t"
    by (auto simp: validationRules_table_def rule_defs too_long_def spec_max_length_fails_def)
  show "pattern_mismatch rules t = spec_pattern_fails rules t"
    by (simp add: pattern_mismatch_def spec_pattern_fails_def split: option.splits)
  show "out_of_range rules t = spec_range_fails rules t"
    by (auto simp: out_of_range_def spec_range_fails_def within_def split: option.splits)
qed

subsection \<open>Evaluations on sample inputs\<close>

lemma trim_examples:
  "trim (js '' '') = []"
  "trim (js ''  '') = []"
  "trim (js ''A'') = js ''A''"
  "trim (js ''A1'') = js ''A1''"
  "trim (js ''AAAAAAAAAAAAAAAAAAAAAAAAAAAAAAAAAAAAAAAAAAAAAAAAAAA'') =
     js ''AAAAAAAAAAAAAAAAAAAAAAAAAAAAAAAAAAAAAAAAAAAAAAAAAAA''"
  "trim (js ''1'') = js ''1''"
  "trim (js ''12'') = js ''12''"
  "trim (js ''13'') = js ''13''"
  "trim (js ''121'') = js ''121''"
  "trim (js ''200'') = js ''200''"
  "trim (js ''Ann Lee'') = js ''Ann Lee''"
  "trim (js '' Ann Lee '') = js ''Ann Lee''"
  "trim (js ''user@domain.com'') = js ''user@domain.com''"
  "trim (js ''Abcdef1!'') = js ''Abcdef1!''"
  "trim (js '' Abcdef1!'') = js ''Abcdef1!''"
  "trim (js ''different'') = js ''different''"
  "trim (js ''123-456-78'') = js ''123-456-78''"
  "trim (js ''Hello there, world'') = js ''Hello there, world''"
  by code_simp+

lemma parseInt_examples:
  "parseInt [] = None"
  "parseInt (js ''12'') = Some 12"
  "parseInt (js ''13'') = Some 13"
  "parseInt (js ''121'') = Some 121"
  "parseInt (js ''200'') = Some 200"
  by code_simp+

lemma regex_examples:
  "regex_test fullName_pattern (js ''Ann Lee'')"
  "\<not> regex_test fullName_pattern (js ''1'')"
  "\<not> regex_test fullName_pattern (js ''A1'')"
  "regex_test email_pattern (js ''user@domain.com'')"
  "regex_test password_pattern (js ''Abcdef1!'')"
  "regex_test phone_pattern (js ''123-456-78'')"
  by code_simp+

lemma passwordValue_examples:
  "passwordValue filled_page = js ''Abcdef1!''"
  "passwordValue under_age_page = js ''Abcdef1!''"
  "passwordValue password_only_page = js ''Abcdef1!''"
  "passwordValue spaced_password_page = js '' Abcdef1!''"
  by (simp_all add: passwordValue_def filled_page_def under_age_page_def
      password_only_page_def spaced_password_page_def page_with_def)

lemma field_text_filled:
  "field_text filled_page (js ''fullName'') = Some (js ''Ann Lee'')"
  "field_text filled_page (js ''email'') = Some (js ''user@domain.com'')"
  "field_text filled_page (js ''phone'') = Some []"
  "field_text filled_page (js ''password'') = Some (js ''Abcdef1!'')"
  "field_text filled_page (js ''confirmPassword'') = Some (js ''Abcdef1!'')"
  "field_text filled_page (js ''age'') = Some (js ''13'')"
  "field_text filled_page (js ''website'') = Some []"
  "field_text filled_page (js ''message'') = Some (js ''Hello there, world'')"
  by (simp_all add: field_text_def filled_page_def page_with_def)

lemma field_text_under_age:
  "field_text under_age_page (js ''fullName'') = Some (js ''Ann Lee'')"
  "field_text under_age_page (js ''email'') = Some (js ''user@domain.com'')"
  "field_text under_age_page (js ''phone'') = Some []"
  "field_text under_age_page (js ''password'') = Some (js ''Abcdef1!'')"
  "field_text under_age_page (js ''confirmPassword'') = Some (js ''Abcdef1!'')"
  "field_text under_age_page (js ''age'') = Some (js ''12'')"
  "field_text under_age_page (js ''website'') = Some []"
  "field_text under_age_page (js ''message'') = Some (js ''Hello there, world'')"
  by (simp_all add: field_text_def under_age_page_def page_with_def)

lemmas evaluate = validateField_def validateField_exit_def validationRules_simps is_empty_iff
  trim_examples parseInt_examples regex_examples passwordValue_examples rule_defs check_defs
  valid_def invalid_def

lemma filled_page_passes: "list_all (passes filled_page) field_names"
  by (simp add: field_names_def passes_def verdict_def field_text_filled evaluate)

lemma under_age_page_verdicts:
  "fails under_age_page (js ''age'')"
  "list_all (\<lambda>g. g = js ''age'' \<or> passes under_age_page g) field_names"
  "report_entry under_age_page (js ''age'') =
     (js ''age'', Some (js ''Age must be between 13 and 120 years''))"
  by (simp_all add: field_names_def passes_def fails_def report_entry_def verdict_def
      field_text_under_age evaluate)

section \<open>Properties of the matcher\<close>

lemma repeat_bounds:
  "(\<forall>i j. i \<le> n \<longrightarrow> j \<in> set (f i) \<longrightarrow> i \<le> j \<and> j \<le> n) \<Longrightarrow>
   i \<le> n \<Longrightarrow> j \<in> set (repeat f n lo hi i) \<Longrightarrow> i \<le> j \<and> j \<le> n"
proof (induction f n lo hi i rule: repeat.induct)
  case (1 f n lo hi i)
  note f = "1.prems"(1) [rule_format]
  note unf = "1.prems"(3) [unfolded repeat.simps [of f n lo hi i]]
  show ?case
  proof (cases "hi = Some 0")
    case True
    with "1.prems"(2) unf show ?thesis
      by simp
  next
    case False
    show ?thesis
    proof (cases "lo = 0")
      case True
      then have nl: "\<not> lo \<noteq> 0"
        by simp
      from True False unf consider "j = i"
        | x where "x \<in> set (filter (\<lambda>j. i < j \<and> j \<le> n) (f i))"
            "j \<in> set (repeat f n 0 (dec hi) x)"
        by auto
      then show ?thesis
      proof cases
        case 1
        with "1.prems"(2) show ?thesis by simp
      next
        case 2
        then have x: "i < x" "x \<le> n"
          by simp_all
        from "1.IH"(2) [OF False nl 2(1) "1.prems"(1) x(2) 2(2)] x(1) show ?thesis
          by simp
      qed
    next
      case lo: False
      with False unf obtain x where
        x: "x \<in> set (f i)" "j \<in> set (repeat f n (lo - 1) (dec hi) x)"
        by auto
      from f [OF "1.prems"(2) x(1)] have ix: "i \<le> x" "x \<le> n"
        by simp_all
      from "1.IH"(1) [OF False lo x(1) "1.prems"(1) ix(2) x(2)] ix(1) show ?thesis
        by simp
    qed
  qed
qed

text \<open>Every matcher moves forward and stays inside the input.\<close>

lemma matches_bounds:
  "i \<le> length s \<Longrightarrow> j \<in> set (matches r s i) \<Longrightarrow> i \<le> j \<and> j \<le> length s"
proof (induction r arbitrary: i j)
  case (Seq a b)
  from Seq.prems(2) obtain k where k: "k \<in> set (matches a s i)" "j \<in> set (matches b s k)"
    by auto
  from Seq.IH(1) [OF Seq.prems(1) k(1)] have ik: "i \<le> k" "k \<le> length s"
    by simp_all
  from Seq.IH(2) [OF ik(2) k(2)] ik(1) show ?case
    by simp
next
  case (Repeat lo hi r)
  have "\<forall>i j. i \<le> length s \<longrightarrow> j \<in> set (matches r s i) \<longrightarrow> i \<le> j \<and> j \<le> length s"
    using Repeat.IH by blast
  moreover from Repeat.prems(2) have "j \<in> set (repeat (matches r s) (length s) lo hi i)"
    by simp
  ultimately show ?case
    using Repeat.prems(1) by (intro repeat_bounds)
next
  case (Lookahead r)
  from Lookahead.prems show ?case
    by (simp split: if_splits)
qed (simp_all split: if_splits)

text \<open>
  So the filter of \<open>repeat\<close> keeps exactly the iterations that consumed something, which
  is the test of RepeatMatcher.
\<close>

lemma repeat_filter:
  assumes "i \<le> length s"
  shows "filter (\<lambda>j. i < j \<and> j \<le> length s) (matches r s i) =
    filter (\<lambda>j. j \<noteq> i) (matches r s i)"
proof (rule filter_cong [OF refl])
  fix j
  assume "j \<in> set (matches r s i)"
  with assms have "i \<le> j \<and> j \<le> length s"
    by (rule matches_bounds)
  then show "(i < j \<and> j \<le> length s) = (j \<noteq> i)"
    by auto
qed

lemma run_from_zero:
  fixes i j n :: nat
  assumes "i \<le> n"
  shows "(j = i \<or> (i < n \<and> P i \<and> Suc i \<le> j \<and> j \<le> n \<and> (\<forall>k. Suc i \<le> k \<and> k < j \<longrightarrow> P k))) \<longleftrightarrow>
    (i \<le> j \<and> j \<le> n \<and> (\<forall>k. i \<le> k \<and> k < j \<longrightarrow> P k))"
proof
  assume "j = i \<or> (i < n \<and> P i \<and> Suc i \<le> j \<and> j \<le> n \<and> (\<forall>k. Suc i \<le> k \<and> k < j \<longrightarrow> P k))"
  then show "i \<le> j \<and> j \<le> n \<and> (\<forall>k. i \<le> k \<and> k < j \<longrightarrow> P k)"
  proof
    assume "j = i"
    with assms show ?thesis by auto
  next
    assume a: "i < n \<and> P i \<and> Suc i \<le> j \<and> j \<le> n \<and> (\<forall>k. Suc i \<le> k \<and> k < j \<longrightarrow> P k)"
    have "P k" if "i \<le> k" "k < j" for k
    proof (cases "k = i")
      case True
      with a show ?thesis by simp
    next
      case False
      with that have "Suc i \<le> k" by simp
      with a that show ?thesis by simp
    qed
    with a show ?thesis by simp
  qed
next
  assume b: "i \<le> j \<and> j \<le> n \<and> (\<forall>k. i \<le> k \<and> k < j \<longrightarrow> P k)"
  show "j = i \<or> (i < n \<and> P i \<and> Suc i \<le> j \<and> j \<le> n \<and> (\<forall>k. Suc i \<le> k \<and> k < j \<longrightarrow> P k))"
  proof (cases "j = i")
    case False
    with b have "i < j" by simp
    with b show ?thesis by simp
  qed simp
qed

lemma run_from_more:
  fixes i j n lo :: nat
  assumes "lo \<noteq> 0"
  shows "(i < n \<and> P i \<and> Suc i + (lo - 1) \<le> j \<and> j \<le> n \<and> (\<forall>k. Suc i \<le> k \<and> k < j \<longrightarrow> P k)) \<longleftrightarrow>
    (i + lo \<le> j \<and> j \<le> n \<and> (\<forall>k. i \<le> k \<and> k < j \<longrightarrow> P k))"
proof
  assume a: "i < n \<and> P i \<and> Suc i + (lo - 1) \<le> j \<and> j \<le> n \<and> (\<forall>k. Suc i \<le> k \<and> k < j \<longrightarrow> P k)"
  have "P k" if "i \<le> k" "k < j" for k
  proof (cases "k = i")
    case True
    with a show ?thesis by simp
  next
    case False
    with that have "Suc i \<le> k" by simp
    with a that show ?thesis by simp
  qed
  with a assms show "i + lo \<le> j \<and> j \<le> n \<and> (\<forall>k. i \<le> k \<and> k < j \<longrightarrow> P k)"
    by simp
next
  assume b: "i + lo \<le> j \<and> j \<le> n \<and> (\<forall>k. i \<le> k \<and> k < j \<longrightarrow> P k)"
  with assms have "i < j" by simp
  with b assms show "i < n \<and> P i \<and> Suc i + (lo - 1) \<le> j \<and> j \<le> n \<and>
      (\<forall>k. Suc i \<le> k \<and> k < j \<longrightarrow> P k)"
    by simp
qed

text \<open>A quantified class consumes a run of characters of the class, at least \<open>lo\<close> long.\<close>

lemma repeat_chars:
  "f = matches (Chars C) s \<Longrightarrow> n = length s \<Longrightarrow> hi = None \<Longrightarrow> i \<le> n \<Longrightarrow>
   j \<in> set (repeat f n lo hi i) \<longleftrightarrow>
     i + lo \<le> j \<and> j \<le> n \<and> (\<forall>k. i \<le> k \<and> k < j \<longrightarrow> in_ranges C (s ! k))"
proof (induction f n lo hi i arbitrary: j rule: repeat.induct)
  case (1 f n lo hi i)
  note eq = repeat.simps [of f n lo hi i]
  have hi: "hi \<noteq> Some 0" "dec hi = None"
    using "1.prems"(3) by simp_all
  have fi: "f i = (if i < n \<and> in_ranges C (s ! i) then [Suc i] else [])"
    using "1.prems"(1,2) by simp
  show ?case
  proof (cases "lo = 0")
    case True
    then have nl: "\<not> lo \<noteq> 0"
      by simp
    have step: "j \<in> set (repeat f n 0 (dec hi) (Suc i)) \<longleftrightarrow>
        Suc i + 0 \<le> j \<and> j \<le> n \<and> (\<forall>k. Suc i \<le> k \<and> k < j \<longrightarrow> in_ranges C (s ! k))"
      if ok: "i < n \<and> in_ranges C (s ! i)"
    proof -
      have "Suc i \<in> set (filter (\<lambda>j. i < j \<and> j \<le> n) (f i))"
        using ok by (simp add: fi)
      moreover have "Suc i \<le> n"
        using ok by simp
      ultimately show ?thesis
        using "1.prems"(1,2) hi(2) by (intro "1.IH"(2) [OF hi(1) nl])
    qed
    have "j \<in> set (repeat f n lo hi i) \<longleftrightarrow>
        j = i \<or> (i < n \<and> in_ranges C (s ! i) \<and> j \<in> set (repeat f n 0 (dec hi) (Suc i)))"
      unfolding eq using hi(1) True by (simp add: fi)
    also have "\<dots> \<longleftrightarrow> j = i \<or> (i < n \<and> in_ranges C (s ! i) \<and> Suc i \<le> j \<and> j \<le> n \<and>
        (\<forall>k. Suc i \<le> k \<and> k < j \<longrightarrow> in_ranges C (s ! k)))"
      using step by auto
    also have "\<dots> \<longleftrightarrow> i \<le> j \<and> j \<le> n \<and> (\<forall>k. i \<le> k \<and> k < j \<longrightarrow> in_ranges C (s ! k))"
      using "1.prems"(4) by (rule run_from_zero)
    finally show ?thesis
      using True by simp
  next
    case False
    have step: "j \<in> set (repeat f n (lo - 1) (dec hi) (Suc i)) \<longleftrightarrow>
        Suc i + (lo - 1) \<le> j \<and> j \<le> n \<and> (\<forall>k. Suc i \<le> k \<and> k < j \<longrightarrow> in_ranges C (s ! k))"
      if ok: "i < n \<and> in_ranges C (s ! i)"
    proof -
      have "Suc i \<in> set (f i)"
        using ok by (simp add: fi)
      moreover have "Suc i \<le> n"
        using ok by simp
      ultimately show ?thesis
        using "1.prems"(1,2) hi(2) by (intro "1.IH"(1) [OF hi(1) False])
    qed
    have "j \<in> set (repeat f n lo hi i) \<longleftrightarrow>
        i < n \<and> in_ranges C (s ! i) \<and> j \<in> set (repeat f n (lo - 1) (dec hi) (Suc i))"
      unfolding eq using hi(1) False by (simp add: fi)
    also have "\<dots> \<longleftrightarrow> i < n \<and> in_ranges C (s ! i) \<and> Suc i + (lo - 1) \<le> j \<and> j \<le> n \<and>
        (\<forall>k. Suc i \<le> k \<and> k < j \<longrightarrow> in_ranges C (s ! k))"
      using step by auto
    also have "\<dots> \<longleftrightarrow> i + lo \<le> j \<and> j \<le> n \<and> (\<forall>k. i \<le> k \<and> k < j \<longrightarrow> in_ranges C (s ! k))"
      using False by (rule run_from_more)
    finally show ?thesis .
  qed
qed

lemma repeat_optional:
  "repeat f n 0 (Some (Suc 0)) i = i # filter (\<lambda>j. i < j \<and> j \<le> n) (f i)"
proof -
  have "repeat f n 0 (Some 0) x = [x]" for x
    by (subst repeat.simps) simp
  then have "repeat f n 0 (Some 0) = (\<lambda>x. [x])"
    by (intro ext)
  then show ?thesis
    by (subst repeat.simps) simp
qed

lemma regex_test_iff: "regex_test r s \<longleftrightarrow> (\<exists>i\<le>length s. matches r s i \<noteq> [])"
  unfolding regex_test_def list_ex_iff set_upt by (auto simp: less_Suc_eq_le)

lemma matches_Seq_iff:
  "matches (Seq a b) s i \<noteq> [] \<longleftrightarrow> (\<exists>k\<in>set (matches a s i). matches b s k \<noteq> [])"
  by auto

lemma regex_test_anchored: "regex_test (Seq Bol r) s \<longleftrightarrow> matches r s 0 \<noteq> []"
  by (auto simp: regex_test_iff)

lemma in_ranges_single [simp]: "in_ranges [single c] x \<longleftrightarrow> x = ch c"
  by (auto simp: in_ranges_def single_def)

lemma matches_optional_char:
  "set (matches (optional (Chars [single c])) s i) =
     (if i < length s \<and> s ! i = ch c then {i, Suc i} else {i})"
  by (auto simp: optional_def repeat_optional)

lemma matches_run_to_end:
  assumes "b \<le> length s"
  shows "matches (Seq (Repeat lo None (Chars C)) Eol) s b \<noteq> [] \<longleftrightarrow>
    b + lo \<le> length s \<and> (\<forall>k. b \<le> k \<and> k < length s \<longrightarrow> in_ranges C (s ! k))"
proof -
  have "matches (Seq (Repeat lo None (Chars C)) Eol) s b \<noteq> [] \<longleftrightarrow>
      length s \<in> set (repeat (matches (Chars C) s) (length s) lo None b)"
    by (auto simp: matches_Seq_iff)
  also have "\<dots> \<longleftrightarrow>
      b + lo \<le> length s \<and> length s \<le> length s \<and>
      (\<forall>k. b \<le> k \<and> k < length s \<longrightarrow> in_ranges C (s ! k))"
    using assms by (intro repeat_chars) simp_all
  finally show ?thesis
    by simp
qed

lemma run_to_end_drop:
  assumes "b \<le> length s"
  shows "b + lo \<le> length s \<and> (\<forall>k. b \<le> k \<and> k < length s \<longrightarrow> P (s ! k)) \<longleftrightarrow>
    lo \<le> length (drop b s) \<and> list_all P (drop b s)"
proof -
  have "(\<forall>k. b \<le> k \<and> k < length s \<longrightarrow> P (s ! k)) \<longleftrightarrow> (\<forall>x\<in>set (drop b s). P x)"
  proof
    assume a: "\<forall>k. b \<le> k \<and> k < length s \<longrightarrow> P (s ! k)"
    show "\<forall>x\<in>set (drop b s). P x"
    proof
      fix x
      assume "x \<in> set (drop b s)"
      then obtain m where "m < length (drop b s)" "drop b s ! m = x"
        by (auto simp: in_set_conv_nth)
      with a [rule_format, of "b + m"] assms show "P x"
        by simp
    qed
  next
    assume a: "\<forall>x\<in>set (drop b s). P x"
    show "\<forall>k. b \<le> k \<and> k < length s \<longrightarrow> P (s ! k)"
    proof (intro allI impI)
      fix k
      assume k: "b \<le> k \<and> k < length s"
      then have "k - b < length s - b"
        by arith
      then have "drop b s ! (k - b) \<in> set (drop b s)"
        by (intro nth_mem) simp
      with a k show "P (s ! k)"
        by simp
    qed
  qed
  with assms show ?thesis
    by (auto simp: list_all_iff)
qed

lemma phone_class_chars:
  "in_ranges phone_class (ch CHR ''('')" "\<not> in_ranges phone_class (ch CHR ''+'')"
  by code_simp+

text \<open>
  What the phone pattern accepts: an optional plus, then at least ten characters, each a
  digit, white space, a hyphen or a parenthesis.  The optional opening parenthesis of the
  pattern adds nothing, the parenthesis being in the class.
\<close>

lemma phone_pattern_iff: "regex_test phone_pattern s \<longleftrightarrow> phone_shape s"
proof -
  define T where "T b \<longleftrightarrow> 10 \<le> length (drop b s) \<and> list_all (in_ranges phone_class) (drop b s)"
    for b
  have tail: "matches (Seq (Repeat 10 None (Chars phone_class)) Eol) s b \<noteq> [] \<longleftrightarrow> T b"
    if "b \<le> length s" for b
  proof -
    have "matches (Seq (Repeat 10 None (Chars phone_class)) Eol) s b \<noteq> [] \<longleftrightarrow>
        b + 10 \<le> length s \<and> (\<forall>k. b \<le> k \<and> k < length s \<longrightarrow> in_ranges phone_class (s ! k))"
      using that by (rule matches_run_to_end)
    also have "\<dots> \<longleftrightarrow> 10 \<le> length (drop b s) \<and> list_all (in_ranges phone_class) (drop b s)"
      using that by (rule run_to_end_drop)
    finally show ?thesis
      by (simp only: T_def)
  qed
  have widen: "T b" if "b < length s" and "s ! b = ch CHR ''(''" and "T (Suc b)" for b
  proof -
    from that(1) have "drop b s = s ! b # drop (Suc b) s"
      by (rule Cons_nth_drop_Suc [symmetric])
    with that show ?thesis
      by (simp add: T_def phone_class_chars)
  qed
  have paren: "(\<exists>b\<in>set (matches (optional (Chars [single CHR ''(''])) s a).
      matches (Seq (Repeat 10 None (Chars phone_class)) Eol) s b \<noteq> []) \<longleftrightarrow> T a"
    if "a \<le> length s" for a
    using that tail [of a] tail [of "Suc a"] widen [of a]
    by (auto simp: matches_optional_char)
  have all: "regex_test phone_pattern s \<longleftrightarrow>
      (\<exists>a\<in>set (matches (optional (Chars [single CHR ''+''])) s 0). T a)"
  proof -
    have "regex_test phone_pattern s \<longleftrightarrow>
      (\<exists>a\<in>set (matches (optional (Chars [single CHR ''+''])) s 0).
        \<exists>b\<in>set (matches (optional (Chars [single CHR ''(''])) s a).
          matches (Seq (Repeat 10 None (Chars phone_class)) Eol) s b \<noteq> [])"
      unfolding phone_pattern_def seqs.simps regex_test_anchored matches_Seq_iff ..
    also have "\<dots> \<longleftrightarrow> (\<exists>a\<in>set (matches (optional (Chars [single CHR ''+''])) s 0). T a)"
    proof (rule bex_cong [OF refl])
      fix a
      assume "a \<in> set (matches (optional (Chars [single CHR ''+''])) s 0)"
      then have "a \<le> length s"
        by (cases s) (auto simp: matches_optional_char split: if_splits)
      then show "(\<exists>b\<in>set (matches (optional (Chars [single CHR ''(''])) s a).
          matches (Seq (Repeat 10 None (Chars phone_class)) Eol) s b \<noteq> []) \<longleftrightarrow> T a"
        by (rule paren)
    qed
    finally show ?thesis .
  qed
  show ?thesis
  proof (cases "s \<noteq> [] \<and> hd s = ch CHR ''+''")
    case True
    then obtain t where s: "s = ch CHR ''+'' # t"
      by (cases s) auto
    have "\<not> T 0"
      by (simp add: T_def s phone_class_chars)
    moreover have "T (Suc 0) \<longleftrightarrow> phone_shape s"
      by (simp add: T_def s phone_shape_def)
    moreover have "0 < length s \<and> s ! 0 = ch CHR ''+''"
      by (simp add: s)
    then have "regex_test phone_pattern s \<longleftrightarrow> T 0 \<or> T (Suc 0)"
      by (simp add: all matches_optional_char)
    ultimately show ?thesis
      by simp
  next
    case False
    then have "\<not> (0 < length s \<and> s ! 0 = ch CHR ''+'')"
      by (cases s) auto
    moreover have "T 0 \<longleftrightarrow> phone_shape s"
      using False by (auto simp: T_def phone_shape_def)
    ultimately show ?thesis
      by (auto simp: all matches_optional_char)
  qed
qed

section \<open>Properties of validateField\<close>

text \<open>
  C1.  For a field with a declared rule, \<open>validateField\<close> applies its checks in a fixed
  order and returns at the first that fails: the required and emptiness test first, then,
  on the trimmed value, that it is not shorter than the minimum length, not longer than
  the maximum length, matches the pattern and lies in the numeric range, then the
  comparison with the password.  The range check fails exactly when \<open>parseInt\<close> of the
  trimmed value is NaN or lies outside the bounds of the rule; the only declared rule
  with bounds is that of \<open>age\<close>, with 13 and 120.
\<close>

theorem checks_in_order:
  assumes "validationRules fieldName = Some rules"
  shows "validateField_exit pg fieldName v =
     (if trim v = [] then
        (if required rules
         then (Fail_required,
           invalid (template_text (member_text pg) (getFieldLabel fieldName) @
             js '' is required''))
         else (Pass_empty, valid))
      else if spec_min_length_fails rules (trim v)
        then (Fail_min_length, invalid (message rules))
      else if spec_max_length_fails rules (trim v)
        then (Fail_max_length, invalid (message rules))
      else if spec_pattern_fails rules (trim v)
        then (Fail_pattern, invalid (message rules))
      else if spec_range_fails rules (trim v)
        then (Fail_range, invalid (message rules))
      else if fieldName = js ''confirmPassword'' \<and> trim v \<noteq> passwordValue pg
        then (Fail_confirm, invalid (message rules))
      else (Pass_all, valid)) \<and>
    (spec_range_fails rules (trim v) \<longleftrightarrow>
       fieldName = js ''age'' \<and>
       (case parseInt (trim v) of None \<Rightarrow> True | Some n \<Rightarrow> n < 13 \<or> n > 120))"
proof
  note s = spec_checks [OF assms, of "trim v"]
  show "validateField_exit pg fieldName v =
     (if trim v = [] then
        (if required rules
         then (Fail_required,
           invalid (template_text (member_text pg) (getFieldLabel fieldName) @
             js '' is required''))
         else (Pass_empty, valid))
      else if spec_min_length_fails rules (trim v)
        then (Fail_min_length, invalid (message rules))
      else if spec_max_length_fails rules (trim v)
        then (Fail_max_length, invalid (message rules))
      else if spec_pattern_fails rules (trim v)
        then (Fail_pattern, invalid (message rules))
      else if spec_range_fails rules (trim v)
        then (Fail_range, invalid (message rules))
      else if fieldName = js ''confirmPassword'' \<and> trim v \<noteq> passwordValue pg
        then (Fail_confirm, invalid (message rules))
      else (Pass_all, valid))"
    using assms by (simp add: validateField_exit_def is_empty_iff s)
next
  from assms have "(fieldName, rules) \<in> set validationRules_table"
    unfolding validationRules_def by (rule map_of_SomeD)
  then show "spec_range_fails rules (trim v) \<longleftrightarrow>
       fieldName = js ''age'' \<and>
       (case parseInt (trim v) of None \<Rightarrow> True | Some n \<Rightarrow> n < 13 \<or> n > 120)"
    by (auto simp: validationRules_table_def spec_range_fails_def within_def rule_defs
        split: option.splits)
qed

theorem checks_in_order_witness:
  "validationRules (js ''fullName'') = Some fullName_rule \<and>
   validationRules (js ''age'') = Some age_rule \<and>
   validationRules (js ''confirmPassword'') = Some confirmPassword_rule \<and>
   validateField_exit filled_page (js ''fullName'') (js '' '') =
     (Fail_required, invalid (js ''Full Name is required'')) \<and>
   length (js ''1'') < 2 \<and> \<not> regex_test fullName_pattern (js ''1'') \<and>
   validateField_exit filled_page (js ''fullName'') (js ''1'') =
     (Fail_min_length, invalid (message fullName_rule)) \<and>
   length (js ''AAAAAAAAAAAAAAAAAAAAAAAAAAAAAAAAAAAAAAAAAAAAAAAAAAA'') = 51 \<and>
   validateField_exit filled_page (js ''fullName'')
       (js ''AAAAAAAAAAAAAAAAAAAAAAAAAAAAAAAAAAAAAAAAAAAAAAAAAAA'') =
     (Fail_max_length, invalid (message fullName_rule)) \<and>
   validateField_exit filled_page (js ''fullName'') (js ''A1'') =
     (Fail_pattern, invalid (message fullName_rule)) \<and>
   validateField_exit filled_page (js ''age'') (js ''200'') =
     (Fail_range, invalid (message age_rule)) \<and>
   validateField_exit filled_page (js ''confirmPassword'') (js ''different'') =
     (Fail_confirm, invalid (message confirmPassword_rule)) \<and>
   validateField_exit filled_page (js ''fullName'') (js ''Ann Lee'') = (Pass_all, valid)"
proof -
  note spec_defs = spec_min_length_fails_def spec_max_length_fails_def spec_pattern_fails_def
    spec_range_fails_def within_def
  have l: "template_text (member_text filled_page) (getFieldLabel (js ''fullName'')) @
      js '' is required'' = js ''Full Name is required''"
    by (simp add: getFieldLabel_examples js_append)
  show ?thesis
    using checks_in_order [OF validationRules_simps(1), of filled_page "js '' ''"]
      checks_in_order [OF validationRules_simps(1), of filled_page "js ''1''"]
      checks_in_order [OF validationRules_simps(1), of filled_page
        "js ''AAAAAAAAAAAAAAAAAAAAAAAAAAAAAAAAAAAAAAAAAAAAAAAAAAA''"]
      checks_in_order [OF validationRules_simps(1), of filled_page "js ''A1''"]
      checks_in_order [OF validationRules_simps(6), of filled_page "js ''200''"]
      checks_in_order [OF validationRules_simps(5), of filled_page "js ''different''"]
      checks_in_order [OF validationRules_simps(1), of filled_page "js ''Ann Lee''"]
    by (simp add: validationRules_simps trim_examples parseInt_examples regex_examples
        passwordValue_examples rule_defs spec_defs l)
qed

text \<open>
  C2.  A field whose rule is not marked required is valid whenever its value is empty or
  trims to empty, whatever length, pattern or range the rule declares; the rules not
  marked required are those of phone, age and website.
\<close>

theorem empty_not_required_is_valid:
  assumes "validationRules fieldName = Some rules"
    and "\<not> required rules"
    and "v = [] \<or> trim v = []"
  shows "validateField pg fieldName v = \<lparr>isValid = True, result_message = None\<rparr> \<and>
    fieldName \<in> {js ''phone'', js ''age'', js ''website''}"
proof
  show "validateField pg fieldName v = \<lparr>isValid = True, result_message = None\<rparr>"
    using assms validateField_is_empty [of fieldName rules v pg]
    by (simp add: validateField_def is_empty_def valid_def)
next
  from assms(1) have "(fieldName, rules) \<in> set validationRules_table"
    unfolding validationRules_def by (rule map_of_SomeD)
  with assms(2) show "fieldName \<in> {js ''phone'', js ''age'', js ''website''}"
    by (auto simp: validationRules_table_def rule_defs)
qed

theorem empty_not_required_is_valid_witness:
  "validationRules (js ''phone'') = Some phone_rule \<and> \<not> required phone_rule \<and>
   validateField filled_page (js ''phone'') [] = \<lparr>isValid = True, result_message = None\<rparr> \<and>
   validateField filled_page (js ''website'') (js ''  '') =
     \<lparr>isValid = True, result_message = None\<rparr>"
proof -
  have n: "\<not> required phone_rule" "\<not> required website_rule"
    by (simp_all add: rule_defs)
  show ?thesis
    using empty_not_required_is_valid [OF validationRules_simps(3) n(1), of "[]" filled_page]
      empty_not_required_is_valid [OF validationRules_simps(7) n(2), of "js ''  ''" filled_page]
      validationRules_simps(3) n
    by (simp add: trim_examples)
qed

text \<open>
  C3.  With the password field holding \<open>p\<close>, a value of the confirmation field that is not
  empty after trimming passes every generic check of its rule, and is then valid if and
  only if its trimmed text equals \<open>p\<close>; a mismatch fails with the rule's message
  ``Passwords do not match''.
\<close>

theorem confirmPassword_equals_password:
  assumes "fields_obj pg (js ''password'') = Some el"
    and "field_value el = p"
    and "trim v \<noteq> []"
  shows "(isValid (validateField pg (js ''confirmPassword'') v) \<longleftrightarrow> trim v = p) \<and>
    (trim v \<noteq> p \<longrightarrow> validateField pg (js ''confirmPassword'') v =
       \<lparr>isValid = False, result_message = Some (js ''Passwords do not match'')\<rparr>) \<and>
    fst (validateField_exit pg (js ''confirmPassword'') v) =
       (if trim v = p then Pass_all else Fail_confirm)"
  using assms
  by (auto simp: validateField_def validateField_exit_def validationRules_simps
      confirmPassword_rule_def passwordValue_def is_empty_iff check_defs valid_def invalid_def)

theorem confirmPassword_equals_password_witness:
  "fields_obj password_only_page (js ''password'') =
     Some \<lparr>field_value = js ''Abcdef1!'', class_error = False, class_success = False\<rparr> \<and>
   trim (js ''Abcdef1!'') \<noteq> [] \<and> trim (js ''different'') \<noteq> [] \<and>
   isValid (validateField password_only_page (js ''confirmPassword'') (js ''Abcdef1!'')) \<and>
   validateField password_only_page (js ''confirmPassword'') (js ''different'') =
     \<lparr>isValid = False, result_message = Some (js ''Passwords do not match'')\<rparr>"
proof -
  have f: "fields_obj password_only_page (js ''password'') =
     Some \<lparr>field_value = js ''Abcdef1!'', class_error = False, class_success = False\<rparr>"
    by (simp add: password_only_page_def page_with_def)
  have t: "trim (js ''Abcdef1!'') \<noteq> []" "trim (js ''different'') \<noteq> []"
    by (simp_all add: trim_examples)
  show ?thesis
    using confirmPassword_equals_password [OF f _ t(1), of "js ''Abcdef1!''"]
      confirmPassword_equals_password [OF f _ t(2), of "js ''Abcdef1!''"] f t
    by (simp add: trim_examples)
qed

text \<open>
  C4.  The result carries a message only when \<open>isValid\<close> is false.  A required field
  whose trimmed value is empty fails with the label of the field followed by
  `` is required''; the label is \<open>labels[fieldName]\<close>, for a field with a rule always an
  own entry of \<open>labels\<close>, and the identifier itself when that lookup finds nothing:
  neither an own entry nor, as for \<open>toString\<close>, a member inherited from
  \<open>Object.prototype\<close>.  Every other failure carries the message of the rule.
\<close>

theorem validateField_messages:
  "(result_message (validateField pg fieldName v) \<noteq> None \<longrightarrow>
      \<not> isValid (validateField pg fieldName v)) \<and>
   (\<forall>rules. validationRules fieldName = Some rules \<longrightarrow>
      (\<exists>l. map_of labels fieldName = Some l \<and> getFieldLabel fieldName = Str l \<and>
         (required rules \<and> trim v = [] \<longrightarrow>
            validateField pg fieldName v =
              \<lparr>isValid = False, result_message = Some (l @ js '' is required'')\<rparr>)) \<and>
      (\<not> isValid (validateField pg fieldName v) \<and> \<not> (required rules \<and> trim v = []) \<longrightarrow>
         result_message (validateField pg fieldName v) = Some (message rules))) \<and>
   getFieldLabel fieldName =
     (case map_of labels fieldName of
        Some l \<Rightarrow> Str l
      | None \<Rightarrow> if inherited fieldName then Member fieldName else Str fieldName)"
proof (intro conjI allI impI)
  show "\<not> isValid (validateField pg fieldName v)"
    if "result_message (validateField pg fieldName v) \<noteq> None"
    using that
    by (cases "validationRules fieldName")
      (auto simp: validateField_def validateField_exit_def valid_def invalid_def Let_def
        split: if_splits)
next
  fix rules
  assume r: "validationRules fieldName = Some rules"
  from declared_label [OF r] obtain l
    where l: "map_of labels fieldName = Some l" "getFieldLabel fieldName = Str l"
    by blast
  have "validateField pg fieldName v =
      \<lparr>isValid = False, result_message = Some (l @ js '' is required'')\<rparr>"
    if "required rules \<and> trim v = []"
    using that r l
    by (simp add: validateField_def validateField_exit_def is_empty_iff invalid_def)
  with l show "\<exists>l. map_of labels fieldName = Some l \<and> getFieldLabel fieldName = Str l \<and>
         (required rules \<and> trim v = [] \<longrightarrow>
            validateField pg fieldName v =
              \<lparr>isValid = False, result_message = Some (l @ js '' is required'')\<rparr>)"
    by blast
  show "result_message (validateField pg fieldName v) = Some (message rules)"
    if "\<not> isValid (validateField pg fieldName v) \<and> \<not> (required rules \<and> trim v = [])"
    using that r
    by (auto simp: validateField_def validateField_exit_def is_empty_iff valid_def invalid_def
        Let_def split: if_splits)
next
  show "getFieldLabel fieldName =
     (case map_of labels fieldName of
        Some l \<Rightarrow> Str l
      | None \<Rightarrow> if inherited fieldName then Member fieldName else Str fieldName)"
    by (rule getFieldLabel_eq)
qed

theorem validateField_messages_witness:
  "validationRules (js ''fullName'') = Some fullName_rule \<and> required fullName_rule \<and>
   trim (js '' '') = [] \<and>
   validateField filled_page (js ''fullName'') (js '' '') =
     \<lparr>isValid = False, result_message = Some (js ''Full Name is required'')\<rparr> \<and>
   trim (js ''A'') \<noteq> [] \<and>
   \<not> isValid (validateField filled_page (js ''fullName'') (js ''A'')) \<and>
   result_message (validateField filled_page (js ''fullName'') (js ''A'')) =
     Some (message fullName_rule) \<and>
   getFieldLabel (js ''zipCode'') = Str (js ''zipCode'') \<and>
   getFieldLabel (js ''toString'') = Member (js ''toString'')"
proof -
  have a: "\<not> isValid (validateField filled_page (js ''fullName'') (js ''A''))"
    by (simp add: evaluate)
  have r: "required fullName_rule"
    by (simp add: rule_defs)
  have m: "map_of labels (js ''fullName'') = Some (js ''Full Name'')"
    "map_of labels (js ''zipCode'') = None" "map_of labels (js ''toString'') = None"
    "\<not> inherited (js ''zipCode'')" "inherited (js ''toString'')"
    by (simp_all add: labels_def inherited_def object_prototype_keys_def)
  show ?thesis
    using validateField_messages [of filled_page "js ''fullName''" "js '' ''"]
      validateField_messages [of filled_page "js ''fullName''" "js ''A''"]
      validateField_messages [of filled_page "js ''zipCode''" "js '' ''"]
      validateField_messages [of filled_page "js ''toString''" "js '' ''"]
      validationRules_simps(1) a r
    by (simp add: m trim_examples js_append)
qed

text \<open>
  What \<open>validateField\<close> accepts for \<open>phone\<close>: a value that trims to empty, or one whose
  trimmed text is an optional plus followed by at least ten characters, each a digit,
  white space, a hyphen or a parenthesis.
\<close>

lemma phone_valid_iff:
  "isValid (validateField pg (js ''phone'') v) \<longleftrightarrow> trim v = [] \<or> phone_shape (trim v)"
  by (auto simp: validateField_def validateField_exit_def validationRules_simps phone_rule_def
      is_empty_iff check_defs valid_def invalid_def phone_pattern_iff Let_def)

text \<open>
  C6.  The phone rule accepts ``123-456-78'': ten characters of its class, of which only
  eight are digits, although the rule's own message asks for at least 10 digits.
\<close>

theorem phone_accepts_eight_digits:
  "validateField filled_page (js ''phone'') (js ''123-456-78'') =
     \<lparr>isValid = True, result_message = None\<rparr> \<and>
   length (filter (in_ranges digit) (js ''123-456-78'')) = 8 \<and>
   message phone_rule = js ''Please enter a valid phone number (at least 10 digits)''"
proof -
  have d: "length (filter (in_ranges digit) (js ''123-456-78'')) = 8"
    by code_simp
  show ?thesis
    using d by (simp add: evaluate)
qed

text \<open>
  C7, as stated.  A value of one space is not the empty string and parses to NaN, yet
  \<open>validateField\<close> accepts it for \<open>age\<close>: it trims to empty and the rule is not required.
\<close>

theorem age_blank_is_valid:
  "js '' '' \<noteq> [] \<and> parseInt (trim (js '' '')) = None \<and>
   isValid (validateField filled_page (js ''age'') (js '' ''))"
  by (simp add: evaluate)

text \<open>
  C7, amended.  For a value that is not empty after trimming, \<open>validateField\<close> on \<open>age\<close>
  parses the trimmed value as a base-10 integer and fails exactly when the parse yields
  NaN or a number below 13 or above 120.
\<close>

theorem age_between_13_and_120:
  assumes "trim v \<noteq> []"
  shows "isValid (validateField pg (js ''age'') v) \<longleftrightarrow>
    (case parseInt (trim v) of None \<Rightarrow> False | Some n \<Rightarrow> 13 \<le> n \<and> n \<le> 120)"
  using assms
  by (auto simp: validateField_def validateField_exit_def validationRules_simps age_rule_def
      is_empty_iff check_defs valid_def invalid_def split: option.splits)

theorem age_between_13_and_120_witness:
  "trim (js ''12'') \<noteq> [] \<and> trim (js ''13'') \<noteq> [] \<and> trim (js ''121'') \<noteq> [] \<and>
   \<not> isValid (validateField filled_page (js ''age'') (js ''12'')) \<and>
   isValid (validateField filled_page (js ''age'') (js ''13'')) \<and>
   \<not> isValid (validateField filled_page (js ''age'') (js ''121''))"
proof -
  have t: "trim (js ''12'') \<noteq> []" "trim (js ''13'') \<noteq> []" "trim (js ''121'') \<noteq> []"
    by (simp_all add: trim_examples)
  show ?thesis
    using age_between_13_and_120 [OF t(1), of filled_page]
      age_between_13_and_120 [OF t(2), of filled_page]
      age_between_13_and_120 [OF t(3), of filled_page] t
    by (simp add: trim_examples parseInt_examples)
qed

text \<open>
  C8.  The result of \<open>validateField\<close> is a function of the field identifier, the value and
  the current value of the password field: two pages that agree on the password field
  give the same result, whatever else they hold.  The function body writes nothing but
  its local \<open>value\<close>, and its patterns carry no flag that would make \<open>test\<close> stateful, so
  the model is a function from the page and returns no page.
\<close>

theorem validateField_deterministic:
  assumes "passwordValue pg = passwordValue pg'"
  shows "validateField pg fieldName v = validateField pg' fieldName v"
  using assms by (simp add: validateField_def validateField_exit_page [of pg pg'])

theorem validateField_deterministic_witness:
  "passwordValue filled_page = passwordValue password_only_page \<and>
   validateField filled_page (js ''confirmPassword'') (js ''Abcdef1!'') =
   validateField password_only_page (js ''confirmPassword'') (js ''Abcdef1!'')"
proof -
  have p: "passwordValue filled_page = passwordValue password_only_page"
    by (simp add: passwordValue_examples)
  from validateField_deterministic [OF p] p show ?thesis
    by simp
qed

text \<open>
  C9.  \<open>validateField\<close> gives the same result on a value and on the trimmed value, for
  every field and every value.  The password field is compared as it is: when its value
  differs from its own trimmed text, no confirmation value is valid.
\<close>

theorem validateField_trim:
  "validateField pg fieldName v = validateField pg fieldName (trim v) \<and>
   (passwordValue pg \<noteq> trim (passwordValue pg) \<longrightarrow>
      \<not> isValid (validateField pg (js ''confirmPassword'') v))"
proof -
  have "trim v = passwordValue pg"
    if "isValid (validateField pg (js ''confirmPassword'') v)"
    using that
    by (simp add: validateField_def validateField_exit_def validationRules_simps
        confirmPassword_rule_def valid_def invalid_def Let_def split: if_splits)
  moreover have "trim v \<noteq> passwordValue pg"
    if "passwordValue pg \<noteq> trim (passwordValue pg)"
    using that by (metis trim_idem)
  ultimately show ?thesis
    by (auto simp: validateField_def validateField_exit_trim)
qed

theorem validateField_trim_witness:
  "validateField filled_page (js ''fullName'') (js '' Ann Lee '') =
     validateField filled_page (js ''fullName'') (js ''Ann Lee'') \<and>
   passwordValue spaced_password_page \<noteq> trim (passwordValue spaced_password_page) \<and>
   \<not> isValid (validateField spaced_password_page (js ''confirmPassword'') (js ''Abcdef1!''))"
proof -
  have n: "passwordValue spaced_password_page \<noteq> trim (passwordValue spaced_password_page)"
    by (simp add: passwordValue_examples trim_examples)
  show ?thesis
    using validateField_trim [of filled_page "js ''fullName''" "js '' Ann Lee ''"]
      validateField_trim [of spaced_password_page "js ''fullName''" "js ''Abcdef1!''"] n
    by (simp add: trim_examples)
qed

section \<open>Properties of the submit handler\<close>

text \<open>\<open>updateFieldUI\<close> leaves the text of every field as it is.\<close>

lemma field_text_updateFieldUI [simp]:
  "field_text (updateFieldUI f r pg) = field_text pg"
proof
  fix g
  show "field_text (updateFieldUI f r pg) g = field_text pg g"
    by (cases "fields_obj pg f")
      (simp_all add: field_text_def updateFieldUI_def Let_def)
qed

lemma passwordValue_field_text:
  "passwordValue pg = (case field_text pg (js ''password'') of None \<Rightarrow> [] | Some p \<Rightarrow> p)"
  by (simp add: passwordValue_def field_text_def split: option.splits)

lemma validateField_cong_text:
  assumes "field_text pg = field_text pg'"
  shows "validateField pg f v = validateField pg' f v"
proof -
  from assms have "passwordValue pg = passwordValue pg'"
    by (simp add: passwordValue_field_text)
  then show ?thesis
    by (simp add: validateField_def validateField_exit_page [of pg pg'])
qed

lemma verdict_cong_text:
  assumes "field_text pg = field_text pg'"
  shows "verdict pg = verdict pg'"
proof -
  have "validateField pg f = validateField pg' f" for f
    by (rule ext) (rule validateField_cong_text [OF assms])
  then have "verdict pg f = verdict pg' f" for f
    by (simp add: verdict_def assms)
  then show ?thesis
    by (rule ext)
qed

lemma validate_one_absent:
  assumes "fields_obj (page st) f = None"
  shows "validate_one f st = st"
  using assms by (simp add: validate_one_def)

lemma validate_one_invalid:
  assumes "fields_obj (page st) f = Some el"
    and "\<not> isValid (validateField (page st) f (field_value el))"
  shows "validate_one f st =
    st\<lparr>page := updateFieldUI f (validateField (page st) f (field_value el)) (page st),
       isFormValid := False,
       errors := errors st @ [(f, result_message (validateField (page st) f (field_value el)))]\<rparr>"
  using assms by (simp add: validate_one_def Let_def)

lemma validate_one_valid:
  assumes "fields_obj (page st) f = Some el"
    and "isValid (validateField (page st) f (field_value el))"
  shows "validate_one f st =
    st\<lparr>page := updateFieldUI f (validateField (page st) f (field_value el)) (page st),
       formData := (formData st)(f \<mapsto> field_value el)\<rparr>"
  using assms by (simp add: validate_one_def Let_def)

lemma validate_one_cases:
  assumes "field_text (page st) = field_text pg"
  shows "field_text (page (validate_one f st)) = field_text pg \<and>
    defaultPrevented (validate_one f st) = defaultPrevented st \<and>
    errors (validate_one f st) =
      errors st @ (if fails pg f then [report_entry pg f] else []) \<and>
    formData (validate_one f st) =
      (if passes pg f then (formData st)(f := field_text pg f) else formData st) \<and>
    isFormValid (validate_one f st) = (isFormValid st \<and> \<not> fails pg f)"
proof (cases "fields_obj (page st) f")
  case None
  then have "field_text pg f = None"
    using assms by (simp add: field_text_def flip: assms)
  then have "verdict pg f = None"
    by (simp add: verdict_def)
  then show ?thesis
    using assms by (simp add: validate_one_absent [OF None] fails_def passes_def)
next
  case (Some el)
  define r where "r = validateField (page st) f (field_value el)"
  have t: "field_text pg f = Some (field_value el)"
    using Some by (simp add: field_text_def flip: assms)
  have "verdict (page st) f = Some r"
    using Some by (simp add: verdict_def field_text_def r_def)
  then have v: "verdict pg f = Some r"
    by (simp add: verdict_cong_text [OF assms])
  show ?thesis
  proof (cases "isValid r")
    case True
    then show ?thesis
      using assms v t validate_one_valid [OF Some True [unfolded r_def]]
      by (simp add: fails_def passes_def)
  next
    case False
    then show ?thesis
      using assms v t validate_one_invalid [OF Some False [unfolded r_def]]
      by (simp add: fails_def passes_def report_entry_def r_def)
  qed
qed

lemma fold_validate_one:
  assumes "field_text (page st) = field_text pg"
  shows "field_text (page (fold validate_one fs st)) = field_text pg \<and>
    defaultPrevented (fold validate_one fs st) = defaultPrevented st \<and>
    errors (fold validate_one fs st) = errors st @ map (report_entry pg) (filter (fails pg) fs) \<and>
    formData (fold validate_one fs st) =
      (\<lambda>g. if g \<in> set fs \<and> passes pg g then field_text pg g else formData st g) \<and>
    isFormValid (fold validate_one fs st) = (isFormValid st \<and> filter (fails pg) fs = [])"
  using assms
proof (induction fs arbitrary: st)
  case Nil
  then show ?case by simp
next
  case (Cons f fs)
  note one = validate_one_cases [OF Cons.prems, of f]
  note rest = Cons.IH [OF one [THEN conjunct1]]
  have "formData (fold validate_one fs (validate_one f st)) =
      (\<lambda>g. if g \<in> set (f # fs) \<and> passes pg g then field_text pg g else formData st g)"
    using one rest by (simp add: fun_eq_iff)
  then show ?case
    using one rest by simp
qed

lemma decorated_error_updateFieldUI:
  "decorated_error (updateFieldUI f r pg) g =
     (if g = f \<and> fields_obj pg f \<noteq> None then \<not> isValid r else decorated_error pg g)"
  by (cases "fields_obj pg f") (simp_all add: decorated_error_def updateFieldUI_def Let_def)

lemma decorated_error_validate_one:
  assumes "field_text (page st) = field_text pg"
  shows "decorated_error (page (validate_one f st)) g =
    (if g = f then fails pg f else decorated_error (page st) g)"
proof (cases "fields_obj (page st) f")
  case None
  then have "field_text pg f = None"
    by (simp add: field_text_def flip: assms)
  then have "\<not> fails pg f"
    by (simp add: fails_def verdict_def)
  then show ?thesis
    using None by (simp add: validate_one_absent [OF None] decorated_error_def)
next
  case (Some el)
  define r where "r = validateField (page st) f (field_value el)"
  have t: "field_text pg f = Some (field_value el)"
    using Some by (simp add: field_text_def flip: assms)
  have "verdict (page st) f = Some r"
    using Some by (simp add: verdict_def field_text_def r_def)
  then have v: "verdict pg f = Some r"
    by (simp add: verdict_cong_text [OF assms])
  show ?thesis
  proof (cases "isValid r")
    case True
    then show ?thesis
      using v t Some validate_one_valid [OF Some True [unfolded r_def]]
      by (simp add: fails_def decorated_error_updateFieldUI r_def)
  next
    case False
    then show ?thesis
      using v t Some validate_one_invalid [OF Some False [unfolded r_def]]
      by (simp add: fails_def decorated_error_updateFieldUI r_def)
  qed
qed

lemma decorated_error_fold:
  assumes "field_text (page st) = field_text pg"
  shows "decorated_error (page (fold validate_one fs st)) g =
    (if g \<in> set fs then fails pg g else decorated_error (page st) g)"
  using assms
proof (induction fs arbitrary: st)
  case Nil
  then show ?case by simp
next
  case (Cons f fs)
  have "field_text (page (validate_one f st)) = field_text pg"
    using validate_one_cases [OF Cons.prems, of f] by simp
  from Cons.IH [OF this] show ?case
    by (simp add: decorated_error_validate_one [OF Cons.prems])
qed

lemma filter_single:
  assumes "distinct xs" and "x \<in> set xs" and "P x" and "\<forall>y\<in>set xs. y \<noteq> x \<longrightarrow> \<not> P y"
  shows "filter P xs = [x]"
  using assms by (induction xs) (auto simp: filter_empty_conv)

lemma distinct_field_names: "distinct field_names"
  by (simp add: field_names_def)

lemma passes_not_fails: "passes pg f \<Longrightarrow> \<not> fails pg f"
  by (simp add: passes_def fails_def split: option.splits)

lemma passes_field_text: "passes pg f \<Longrightarrow> field_text pg f \<noteq> None"
  by (auto simp: passes_def verdict_def split: option.splits)

lemma validate_all_eq:
  "field_text (page (validate_all pg)) = field_text pg \<and>
   defaultPrevented (validate_all pg) \<and>
   errors (validate_all pg) = map (report_entry pg) (filter (fails pg) field_names) \<and>
   formData (validate_all pg) =
     (\<lambda>g. if g \<in> set field_names \<and> passes pg g then field_text pg g else None) \<and>
   isFormValid (validate_all pg) = (filter (fails pg) field_names = [])"
proof -
  define st where "st = \<lparr>defaultPrevented = True, isFormValid = True,
    formData = Map.empty, errors = [], page = pg\<rparr>"
  have "field_text (page st) = field_text pg"
    by (simp add: st_def)
  from fold_validate_one [OF this, of field_names] show ?thesis
    by (simp add: validate_all_def st_def cong del: if_weak_cong)
qed

lemma decorated_error_validate_all:
  "decorated_error (page (validate_all pg)) g =
    (if g \<in> set field_names then fails pg g else decorated_error pg g)"
proof -
  define st where "st = \<lparr>defaultPrevented = True, isFormValid = True,
    formData = Map.empty, errors = [], page = pg\<rparr>"
  have "field_text (page st) = field_text pg"
    by (simp add: st_def)
  from decorated_error_fold [OF this, of field_names g] show ?thesis
    by (simp add: validate_all_def st_def)
qed

text \<open>The two outcomes change the page only: the locals of the handler are those of the loop.\<close>

lemma submit_eq:
  "defaultPrevented (submit pg) \<and>
   errors (submit pg) = map (report_entry pg) (filter (fails pg) field_names) \<and>
   formData (submit pg) =
     (\<lambda>g. if g \<in> set field_names \<and> passes pg g then field_text pg g else None) \<and>
   isFormValid (submit pg) = (filter (fails pg) field_names = [])"
proof -
  define st where "st = validate_all pg"
  have "defaultPrevented (submit pg) = defaultPrevented st" "errors (submit pg) = errors st"
    "formData (submit pg) = formData st" "isFormValid (submit pg) = isFormValid st"
    by (simp_all add: submit_def st_def Let_def)
  then show ?thesis
    using validate_all_eq [of pg] by (simp only: st_def)
qed

text \<open>
  What the outcomes do to the error decorations.  A blur decorates its field by the
  verdict on it; a focus takes the decoration off its field; so after
  \<open>handleFailedSubmission\<close> a field is decorated as an error only if it was or if it
  fails, and the field that got the focus is not.
\<close>

lemma fails_iff:
  "fails pg f \<longleftrightarrow>
     (case fields_obj pg f of None \<Rightarrow> False
      | Some el \<Rightarrow> \<not> isValid (validateField pg f (field_value el)))"
  by (simp add: fails_def verdict_def field_text_def split: option.splits)

lemma decorated_error_blur_listener:
  "decorated_error (blur_listener f pg) g =
     (if g = f \<and> f \<in> set field_names \<and> fields_obj pg f \<noteq> None then fails pg f
      else decorated_error pg g)"
  by (cases "fields_obj pg f")
    (auto simp: blur_listener_def decorated_error_updateFieldUI fails_iff)

lemma decorated_error_focus_listener:
  "decorated_error (focus_listener f pg) g =
     (decorated_error pg g \<and> \<not> (g = f \<and> f \<in> set field_names))"
  by (cases "fields_obj pg f") (auto simp: focus_listener_def decorated_error_def)

lemma decorated_error_focused [simp]:
  "decorated_error (pg\<lparr>focused := x\<rparr>) = decorated_error pg"
  "decorated_error (pg\<lparr>formSuccess := y\<rparr>) = decorated_error pg"
  "decorated_error (pg\<lparr>banners := z\<rparr>) = decorated_error pg"
  by (simp_all add: decorated_error_def fun_eq_iff)

lemma fails_formSuccess [simp]: "fails (pg\<lparr>formSuccess := y\<rparr>) = fails pg"
proof -
  have "field_text (pg\<lparr>formSuccess := y\<rparr>) = field_text pg"
    by (simp add: field_text_def fun_eq_iff)
  then have "verdict (pg\<lparr>formSuccess := y\<rparr>) = verdict pg"
    by (rule verdict_cong_text)
  then show ?thesis
    by (simp add: fails_def fun_eq_iff)
qed

lemma decorated_error_focus_input:
  assumes "decorated_error (focus_input f pg) g"
  shows "decorated_error pg g \<or> fails pg g"
proof (cases "focused pg = Some f")
  case True
  with assms show ?thesis
    by (simp add: focus_input_def)
next
  case False
  show ?thesis
  proof (cases "focused pg")
    case None
    with assms False show ?thesis
      by (simp add: focus_input_def decorated_error_focus_listener)
  next
    case (Some old)
    with assms False have "decorated_error (blur_listener old pg) g"
      by (simp add: focus_input_def decorated_error_focus_listener)
    then show ?thesis
      by (simp add: decorated_error_blur_listener split: if_splits)
  qed
qed

lemma focus_input_takes_decoration:
  assumes "f \<in> set field_names" and "focused pg \<noteq> Some f"
  shows "\<not> decorated_error (focus_input f pg) f"
  using assms by (simp add: focus_input_def Let_def decorated_error_focus_listener)

lemma decorated_error_handleFailedSubmission:
  assumes "decorated_error (handleFailedSubmission errs pg) g"
  shows "decorated_error pg g \<or> fails pg g"
proof -
  define pg1 where "pg1 = pg\<lparr>formSuccess := map_option (\<lambda>d. js ''none'') (formSuccess pg)\<rparr>"
  define first where "first = find (\<lambda>fieldName.
      case fields_obj pg1 fieldName of None \<Rightarrow> False | Some field \<Rightarrow> class_error field)
    field_names"
  have h: "handleFailedSubmission errs pg =
      showNotification ([0x274C] @ js '' Please fix the errors and try again'')
        (case first of None \<Rightarrow> pg1 | Some fieldName \<Rightarrow> focus_input fieldName pg1)"
    unfolding handleFailedSubmission_def Let_def pg1_def first_def by (rule refl)
  have 1: "decorated_error pg1 = decorated_error pg" "fails pg1 = fails pg"
    by (simp_all add: pg1_def)
  show ?thesis
  proof (cases first)
    case None
    with assms h 1 show ?thesis
      by (simp add: showNotification_def)
  next
    case (Some f)
    with assms h have "decorated_error (focus_input f pg1) g"
      by (simp add: showNotification_def)
    from decorated_error_focus_input [OF this] 1 show ?thesis
      by simp
  qed
qed

text \<open>
  The loop leaves the focus where it is, so when some field fails, the first failing
  field gets the focus and loses its decoration, unless it had the focus already.
\<close>

lemma focused_updateFieldUI [simp]: "focused (updateFieldUI f r pg) = focused pg"
  by (cases "fields_obj pg f") (simp_all add: updateFieldUI_def Let_def)

lemma focused_validate_one [simp]: "focused (page (validate_one f st)) = focused (page st)"
  by (cases "fields_obj (page st) f") (simp_all add: validate_one_def Let_def)

lemma focused_fold_validate_one:
  "focused (page (fold validate_one fs st)) = focused (page st)"
  by (induction fs arbitrary: st) simp_all

lemma submit_first_failure:
  assumes "find (fails pg) field_names = Some f" and "focused pg \<noteq> Some f"
  shows "\<not> isFormValid (submit pg) \<and> \<not> decorated_error (page (submit pg)) f"
proof -
  define st where "st = validate_all pg"
  define pg1 where
    "pg1 = (page st)\<lparr>formSuccess := map_option (\<lambda>d. js ''none'') (formSuccess (page st))\<rparr>"
  from assms(1) have f: "f \<in> set field_names" "fails pg f"
    by (auto simp: find_Some_iff)
  then have n: "filter (fails pg) field_names \<noteq> []"
    by (auto simp: filter_empty_conv)
  then have v: "\<not> isFormValid st"
    unfolding st_def using validate_all_eq [of pg] by simp
  have "(case fields_obj pg1 g of None \<Rightarrow> False | Some field \<Rightarrow> class_error field) = fails pg g"
    if "g \<in> set field_names" for g
    using that decorated_error_validate_all [of pg g]
    by (simp add: pg1_def st_def decorated_error_def)
  then have "find (\<lambda>g. case fields_obj pg1 g of None \<Rightarrow> False | Some field \<Rightarrow> class_error field)
      field_names = Some f"
    using assms(1) by (simp cong: find_cong)
  then have h: "handleFailedSubmission (errors st) (page st) =
      showNotification ([0x274C] @ js '' Please fix the errors and try again'')
        (focus_input f pg1)"
    unfolding handleFailedSubmission_def Let_def pg1_def by (simp only: option.case)
  have "focused pg1 = focused pg"
    by (simp add: pg1_def st_def validate_all_def focused_fold_validate_one)
  with assms(2) have "\<not> decorated_error (focus_input f pg1) f"
    by (intro focus_input_takes_decoration f) simp
  with v h show ?thesis
    by (simp add: submit_def Let_def showNotification_def flip: st_def)
qed

lemma decorated_error_handleSuccessfulSubmission:
  "decorated_error (handleSuccessfulSubmission d pg) = decorated_error pg"
  by (simp add: handleSuccessfulSubmission_def showNotification_def)

lemma decorated_error_submit:
  assumes "g \<in> set field_names" and "decorated_error (page (submit pg)) g"
  shows "fails pg g"
proof -
  define st where "st = validate_all pg"
  have t: "field_text (page st) = field_text pg"
    unfolding st_def using validate_all_eq [of pg] by blast
  then have "verdict (page st) = verdict pg"
    by (rule verdict_cong_text)
  then have f: "fails (page st) = fails pg"
    by (simp add: fails_def fun_eq_iff)
  have d: "decorated_error (page st) g = fails pg g"
    using assms(1) by (simp add: st_def decorated_error_validate_all)
  show ?thesis
  proof (cases "isFormValid st")
    case True
    with assms(2) have "decorated_error (page st) g"
      by (simp add: submit_def Let_def decorated_error_handleSuccessfulSubmission
          flip: st_def)
    with d show ?thesis
      by simp
  next
    case False
    with assms(2) have "decorated_error (handleFailedSubmission (errors st) (page st)) g"
      by (simp add: submit_def Let_def flip: st_def)
    from decorated_error_handleFailedSubmission [OF this] d f show ?thesis
      by simp
  qed
qed

lemma dom_formData_submit:
  "dom (formData (submit pg)) = {g \<in> set field_names. passes pg g}"
  using passes_field_text [of pg]
  by (auto simp: submit_eq dom_def)

text \<open>
  C5.  The handler always intercepts the default action and validates every declared
  field on the texts the page holds now.  When every field passes, the Error Report is
  empty and the payload maps exactly the declared field names, each to the text of its
  field.  When exactly one field fails, the Error Report is that one field with its
  failure message, and every other field keeps its own result: it is in the payload with
  its text and is not decorated as an error when the handler returns, after the failing
  field got the focus.  Nothing of an earlier run is reused: pages that hold the same
  texts give the same report, payload and outcome, whatever decorations and messages
  earlier validations left on them.
\<close>

theorem submit_revalidates_every_field:
  "defaultPrevented (submit pg) \<and>
    ((\<forall>f\<in>set field_names. passes pg f) \<longrightarrow>
       errors (submit pg) = [] \<and> isFormValid (submit pg) \<and>
       dom (formData (submit pg)) = set field_names \<and>
       (\<forall>f\<in>set field_names. formData (submit pg) f = field_text pg f)) \<and>
    (\<forall>f\<in>set field_names.
       fails pg f \<and> (\<forall>g\<in>set field_names. g \<noteq> f \<longrightarrow> passes pg g) \<longrightarrow>
       errors (submit pg) = [report_entry pg f] \<and> \<not> isFormValid (submit pg) \<and>
       dom (formData (submit pg)) = set field_names - {f} \<and>
       (\<forall>g\<in>set field_names. g \<noteq> f \<longrightarrow>
          formData (submit pg) g = field_text pg g \<and>
          \<not> decorated_error (page (submit pg)) g)) \<and>
    (\<forall>pg'. field_text pg' = field_text pg \<longrightarrow>
       errors (submit pg') = errors (submit pg) \<and>
       formData (submit pg') = formData (submit pg) \<and>
       isFormValid (submit pg') = isFormValid (submit pg))"
proof (intro conjI impI ballI allI)
  show "defaultPrevented (submit pg)"
    by (simp add: submit_eq)
next
  assume all: "\<forall>f\<in>set field_names. passes pg f"
  then have none: "filter (fails pg) field_names = []"
    by (auto simp: filter_empty_conv dest: passes_not_fails)
  show "errors (submit pg) = []" "isFormValid (submit pg)"
    by (simp_all add: submit_eq none)
  show "dom (formData (submit pg)) = set field_names"
    using all by (auto simp: dom_formData_submit)
  show "formData (submit pg) f = field_text pg f" if "f \<in> set field_names" for f
    using all that by (simp add: submit_eq)
next
  fix f
  assume f: "f \<in> set field_names"
    and one: "fails pg f \<and> (\<forall>g\<in>set field_names. g \<noteq> f \<longrightarrow> passes pg g)"
  then have only: "filter (fails pg) field_names = [f]"
    by (intro filter_single distinct_field_names) (auto dest: passes_not_fails)
  have nf: "\<not> passes pg f"
    using one passes_not_fails by blast
  show "errors (submit pg) = [report_entry pg f]" "\<not> isFormValid (submit pg)"
    by (simp_all add: submit_eq only)
  show "dom (formData (submit pg)) = set field_names - {f}"
    using one nf by (auto simp: dom_formData_submit)
  show "formData (submit pg) g = field_text pg g" if "g \<in> set field_names" "g \<noteq> f" for g
    using one that by (simp add: submit_eq)
  show "\<not> decorated_error (page (submit pg)) g" if "g \<in> set field_names" "g \<noteq> f" for g
    using one that passes_not_fails [of pg g] decorated_error_submit [of g pg]
    by blast
next
  fix pg'
  assume same: "field_text pg' = field_text pg"
  then have v: "verdict pg' = verdict pg"
    by (rule verdict_cong_text)
  have "fails pg' = fails pg" "passes pg' = passes pg" "report_entry pg' = report_entry pg"
    by (simp_all add: fails_def passes_def report_entry_def v fun_eq_iff)
  then show "errors (submit pg') = errors (submit pg)"
    "formData (submit pg') = formData (submit pg)"
    "isFormValid (submit pg') = isFormValid (submit pg)"
    by (simp_all add: submit_eq same cong del: if_weak_cong)
qed

theorem submit_revalidates_every_field_witness:
  "list_all (passes filled_page) field_names \<and>
   errors (submit filled_page) = [] \<and> isFormValid (submit filled_page) \<and>
   dom (formData (submit filled_page)) = set field_names \<and>
   fails under_age_page (js ''age'') \<and>
   list_all (\<lambda>g. g = js ''age'' \<or> passes under_age_page g) field_names \<and>
   errors (submit under_age_page) =
     [(js ''age'', Some (js ''Age must be between 13 and 120 years''))] \<and>
   dom (formData (submit under_age_page)) = set field_names - {js ''age''}"
proof -
  have a: "\<forall>f\<in>set field_names. passes filled_page f"
    using filled_page_passes by (simp only: list_all_iff)
  have b: "\<forall>g\<in>set field_names. g \<noteq> js ''age'' \<longrightarrow> passes under_age_page g"
    using under_age_page_verdicts(2) by (auto simp only: list_all_iff)
  have c: "js ''age'' \<in> set field_names"
    by (simp add: field_names_def)
  from submit_revalidates_every_field [of filled_page] a
  have 1: "errors (submit filled_page) = [] \<and> isFormValid (submit filled_page) \<and>
      dom (formData (submit filled_page)) = set field_names"
    by blast
  from submit_revalidates_every_field [of under_age_page] b c under_age_page_verdicts(1)
  have 2: "errors (submit under_age_page) = [report_entry under_age_page (js ''age'')] \<and>
      dom (formData (submit under_age_page)) = set field_names - {js ''age''}"
    by blast
  show ?thesis
    using 1 2 filled_page_passes under_age_page_verdicts by simp
qed

section \<open>Properties of the disclosure groups\<close>



lemma nth_map_enumerate:
  "j < length xs \<Longrightarrow> map f (enumerate 0 xs) ! j = f (j, xs ! j)"
  by (simp add: nth_enumerate_eq)










end
